theory Spec2Isabelle
  imports Main "HOL-Library.Word" "HOL-Library.Multiset" "HOL-Library.AList"
begin

section \<open>JavaScript values\<close>

text \<open>
  A JavaScript string is a sequence of 16-bit code units; \<open>lit\<close> writes an ASCII literal.
\<close>

type_synonym jsstring = "16 word list"

definition lit :: "string \<Rightarrow> jsstring" where
  "lit s = map (\<lambda>c. of_nat (of_char c)) s"

text \<open>
  Numbers are kept as exact decimals \<open>m * 10 ^ e\<close> (no rounding to a double), with the
  two non-finite kinds. Negative zero is \<open>Dec 0 e\<close> like zero.
\<close>

datatype jsnum = Dec int int | NaN | Infinite bool

datatype jsval =
    Undefined
  | Null
  | Boolean bool
  | Num jsnum
  | Str jsstring
  | Arr "jsval list"
  | Obj "(jsstring \<times> jsval) list"

datatype error = TypeError

fun numZero :: "jsnum \<Rightarrow> bool" where
  "numZero (Dec m e) = (m = 0)"
| "numZero NaN = False"
| "numZero (Infinite neg) = False"

text \<open>\<open>!v\<close>: the falsy values are undefined, null, false, 0, NaN and the empty string.\<close>

fun falsy :: "jsval \<Rightarrow> bool" where
  "falsy Undefined = True"
| "falsy Null = True"
| "falsy (Boolean b) = (\<not> b)"
| "falsy (Num n) = (numZero n \<or> n = NaN)"
| "falsy (Str s) = (s = [])"
| "falsy (Arr xs) = False"
| "falsy (Obj kvs) = False"

definition isDigit :: "16 word \<Rightarrow> bool" where
  "isDigit c = (0x30 \<le> c \<and> c \<le> 0x39)"

definition digitsValue :: "jsstring \<Rightarrow> nat" where
  "digitsValue ds = foldl (\<lambda>n c. 10 * n + (unat c - 48)) 0 ds"

text \<open>
  An array index is a canonical numeric key: \<open>0\<close>, or digits that do not start with
  \<open>0\<close>.
\<close>

definition arrayIndex :: "jsstring \<Rightarrow> nat option" where
  "arrayIndex k =
     (if k \<noteq> [] \<and> list_all isDigit k \<and> (hd k \<noteq> 0x30 \<or> length k = 1)
      then Some (digitsValue k) else None)"

text \<open>
  \<open>current[key]\<close> on the own data properties of a value: the entries of an object, the
  elements and \<open>length\<close> of an array, the code units and \<open>length\<close> of a string.
  Reading a property of null or undefined throws. The members a value inherits from
  the built-in prototypes are functions, which \<open>jsval\<close> does not hold.
\<close>

fun getProp :: "jsval \<Rightarrow> jsstring \<Rightarrow> error + jsval" where
  "getProp Undefined k = Inl TypeError"
| "getProp Null k = Inl TypeError"
| "getProp (Obj kvs) k = Inr (case map_of kvs k of Some v \<Rightarrow> v | None \<Rightarrow> Undefined)"
| "getProp (Arr xs) k =
     Inr (if k = lit ''length'' then Num (Dec (int (length xs)) 0)
          else case arrayIndex k of
                 Some i \<Rightarrow> if i < length xs then xs ! i else Undefined
               | None \<Rightarrow> Undefined)"
| "getProp (Str s) k =
     Inr (if k = lit ''length'' then Num (Dec (int (length s)) 0)
          else case arrayIndex k of
                 Some i \<Rightarrow> if i < length s then Str [s ! i] else Undefined
               | None \<Rightarrow> Undefined)"
| "getProp (Boolean b) k = Inr Undefined"
| "getProp (Num n) k = Inr Undefined"

section \<open>getDeep\<close>

text \<open>
  \<open>path.replace(/\[(\d+)\]/g, ".$1")\<close>: scanning from the left, every \<open>[digits]\<close>
  becomes \<open>.digits\<close>; the scan goes on after the closing bracket.
\<close>

function replaceIndex :: "jsstring \<Rightarrow> jsstring" where
  "replaceIndex [] = []"
| "replaceIndex (c # cs) =
     (let ds = takeWhile isDigit cs; rest = dropWhile isDigit cs
      in if c = 0x5B \<and> ds \<noteq> [] \<and> rest \<noteq> [] \<and> hd rest = 0x5D
         then 0x2E # ds @ replaceIndex (tl rest)
         else c # replaceIndex cs)"
  by pat_completeness auto
termination
proof (relation "measure length")
  fix c :: "16 word" and cs ds rest :: jsstring
  assume "rest = dropWhile isDigit cs"
  then have "length (tl rest) \<le> length cs"
    using length_dropWhile_le [of isDigit cs] by simp
  then show "(tl rest, c # cs) \<in> measure length" by simp
qed simp_all

text \<open>\<open>s.split(sep)\<close> for a one-character separator; the empty string gives \<open>[""]\<close>.\<close>

fun split :: "'a \<Rightarrow> 'a list \<Rightarrow> 'a list list" where
  "split sep [] = [[]]"
| "split sep (c # cs) =
     (if c = sep then [] # split sep cs
      else case split sep cs of
             w # ws \<Rightarrow> (c # w) # ws
           | [] \<Rightarrow> [[c]])"

text \<open>The \<open>for (const key of keys)\<close> loop of getDeep and the return after it.\<close>

fun walk :: "jsval \<Rightarrow> jsstring list \<Rightarrow> jsval \<Rightarrow> error + jsval" where
  "walk current [] defaultValue =
     Inr (if current = Undefined then defaultValue else current)"
| "walk current (key # keys) defaultValue =
     (if current = Null \<or> current = Undefined then Inr defaultValue
      else case getProp current key of
             Inl e \<Rightarrow> Inl e
           | Inr v \<Rightarrow> walk v keys defaultValue)"

definition getDeep :: "jsval \<Rightarrow> jsstring \<Rightarrow> jsval \<Rightarrow> error + jsval" where
  "getDeep obj path defaultValue =
     (if falsy obj then Inr defaultValue
      else walk obj (split 0x2E (replaceIndex path)) defaultValue)"

section \<open>Reading a path, in the words of the specification\<close>

text \<open>
  A value is absent when it is undefined or null. Reading a segment of an absent value,
  or a segment the value does not have, finds nothing (undefined). The specification's
  \<open>get\<close> walks the segments of the normalised path and returns the default when the
  object is absent or when the walk ends on undefined, the value found otherwise.
\<close>

definition absent :: "jsval \<Rightarrow> bool" where
  "absent v = (v = Undefined \<or> v = Null)"

definition spec_read :: "jsval \<Rightarrow> jsstring \<Rightarrow> jsval" where
  "spec_read v k =
     (if absent v then Undefined
      else case getProp v k of Inr w \<Rightarrow> w | Inl err \<Rightarrow> Undefined)"

definition spec_resolve :: "jsval \<Rightarrow> jsstring \<Rightarrow> jsval" where
  "spec_resolve obj path = foldl spec_read obj (split 0x2E (replaceIndex path))"

definition spec_get :: "jsval \<Rightarrow> jsstring \<Rightarrow> jsval \<Rightarrow> jsval" where
  "spec_get obj path defaultValue =
     (if absent obj \<or> spec_resolve obj path = Undefined then defaultValue
      else spec_resolve obj path)"


section \<open>Conversions between strings, numbers and values\<close>

text \<open>The decimal digits of a natural number, most significant first.\<close>

fun digitsOf :: "nat \<Rightarrow> jsstring" where
  "digitsOf n =
     (if n < 10 then [0x30 + of_nat n]
      else digitsOf (n div 10) @ [0x30 + of_nat (n mod 10)])"

declare digitsOf.simps [simp del]

text \<open>
  \<open>String(n)\<close> for a number, as Number::toString prints the decimal digits \<open>s\<close> (without
  trailing zeros), their count \<open>k\<close> and the position \<open>n\<close> of the decimal point.
\<close>

definition stripZeros :: "jsstring \<Rightarrow> jsstring" where
  "stripZeros s = rev (dropWhile (\<lambda>c. c = 0x30) (rev s))"

fun numToString :: "jsnum \<Rightarrow> jsstring" where
  "numToString NaN = lit ''NaN''"
| "numToString (Infinite neg) = (if neg then lit ''-Infinity'' else lit ''Infinity'')"
| "numToString (Dec m e) =
     (if m = 0 then lit ''0''
      else
        let s0 = digitsOf (nat \<bar>m\<bar>);
            s = stripZeros s0;
            k = int (length s);
            n = e + int (length s0);
            body =
              (if k \<le> n \<and> n \<le> 21 then s @ replicate (nat (n - k)) 0x30
               else if 0 < n \<and> n \<le> 21 then take (nat n) s @ lit ''.'' @ drop (nat n) s
               else if -6 < n \<and> n \<le> 0 then lit ''0.'' @ replicate (nat (- n)) 0x30 @ s
               else
                 let ex = n - 1;
                     es = (if ex < 0 then lit ''-'' else lit ''+'') @ digitsOf (nat \<bar>ex\<bar>)
                 in if k = 1 then s @ lit ''e'' @ es
                    else take 1 s @ lit ''.'' @ drop 1 s @ lit ''e'' @ es)
        in (if m < 0 then lit ''-'' else []) @ body)"

declare numToString.simps [simp del]

text \<open>\<open>xs.join(sep)\<close> on strings.\<close>

fun joinWith :: "jsstring \<Rightarrow> jsstring list \<Rightarrow> jsstring" where
  "joinWith sep [] = []"
| "joinWith sep [x] = x"
| "joinWith sep (x # y # ys) = x @ sep @ joinWith sep (y # ys)"

text \<open>
  \<open>String(v)\<close>. An array prints its elements joined by commas, where undefined and null
  elements print as the empty string; an object prints as \<open>[object Object]\<close>.
\<close>

fun toString :: "jsval \<Rightarrow> jsstring" where
  "toString Undefined = lit ''undefined''"
| "toString Null = lit ''null''"
| "toString (Boolean b) = (if b then lit ''true'' else lit ''false'')"
| "toString (Num n) = numToString n"
| "toString (Str s) = s"
| "toString (Arr xs) =
     joinWith (lit '','')
       (map (\<lambda>v. if v = Undefined \<or> v = Null then [] else toString v) xs)"
| "toString (Obj kvs) = lit ''[object Object]''"

definition join :: "jsstring \<Rightarrow> jsval list \<Rightarrow> jsstring" where
  "join sep xs =
     joinWith sep (map (\<lambda>v. if v = Undefined \<or> v = Null then [] else toString v) xs)"

text \<open>The white space and line terminators that \<open>trim\<close> and \<open>Number\<close> strip.\<close>

definition isSpace :: "16 word \<Rightarrow> bool" where
  "isSpace c =
     ((0x09 \<le> c \<and> c \<le> 0x0D) \<or> c = 0x20 \<or> c = 0xA0 \<or> c = 0x1680
      \<or> (0x2000 \<le> c \<and> c \<le> 0x200A) \<or> c = 0x2028 \<or> c = 0x2029 \<or> c = 0x202F
      \<or> c = 0x205F \<or> c = 0x3000 \<or> c = 0xFEFF)"

definition trim :: "jsstring \<Rightarrow> jsstring" where
  "trim s = rev (dropWhile isSpace (rev (dropWhile isSpace s)))"


section \<open>JSON.parse\<close>

definition isWs :: "16 word \<Rightarrow> bool" where
  "isWs c = (c = 0x20 \<or> c = 0x09 \<or> c = 0x0A \<or> c = 0x0D)"

definition hexVal :: "16 word \<Rightarrow> nat option" where
  "hexVal c =
     (if 0x30 \<le> c \<and> c \<le> 0x39 then Some (unat c - 0x30)
      else if 0x41 \<le> c \<and> c \<le> 0x46 then Some (unat c - 0x41 + 10)
      else if 0x61 \<le> c \<and> c \<le> 0x66 then Some (unat c - 0x61 + 10)
      else None)"

text \<open>The character an escape \<open>\c\<close> stands for (other than \<open>\u\<close>).\<close>

definition unescape :: "16 word \<Rightarrow> 16 word option" where
  "unescape c =
     (if c = 0x22 \<or> c = 0x5C \<or> c = 0x2F then Some c
      else if c = 0x62 then Some 0x08
      else if c = 0x66 then Some 0x0C
      else if c = 0x6E then Some 0x0A
      else if c = 0x72 then Some 0x0D
      else if c = 0x74 then Some 0x09
      else None)"

text \<open>
  The characters of a string literal after its opening quote, up to the closing quote;
  the result is the string and the text after it.
\<close>

fun parseChars :: "jsstring \<Rightarrow> (jsstring \<times> jsstring) option" where
  "parseChars [] = None"
| "parseChars (c # cs) =
     (if c = 0x22 then Some ([], cs)
      else if c = 0x5C then
        (case cs of
           [] \<Rightarrow> None
         | e # cs1 \<Rightarrow>
             if e = 0x75 then
               (case cs1 of
                  h1 # h2 # h3 # h4 # cs2 \<Rightarrow>
                    (case (hexVal h1, hexVal h2, hexVal h3, hexVal h4) of
                       (Some a, Some b, Some c, Some d) \<Rightarrow>
                         (case parseChars cs2 of
                            Some (str, rest) \<Rightarrow>
                              Some (of_nat (((a * 16 + b) * 16 + c) * 16 + d) # str, rest)
                          | None \<Rightarrow> None)
                     | _ \<Rightarrow> None)
                | _ \<Rightarrow> None)
             else
               (case unescape e of
                  Some x \<Rightarrow>
                    (case parseChars cs1 of
                       Some (str, rest) \<Rightarrow> Some (x # str, rest)
                     | None \<Rightarrow> None)
                | None \<Rightarrow> None))
      else if c < 0x20 then None
      else
        (case parseChars cs of
           Some (str, rest) \<Rightarrow> Some (c # str, rest)
         | None \<Rightarrow> None))"

text \<open>
  A number literal: an optional minus, \<open>0\<close> or digits without a leading zero, an
  optional fraction and an optional exponent.
\<close>

definition parseNumber :: "jsstring \<Rightarrow> (jsnum \<times> jsstring) option" where
  "parseNumber s =
     (let neg = (s \<noteq> [] \<and> hd s = 0x2D);
          s1 = (if neg then tl s else s);
          ip = (if s1 \<noteq> [] \<and> hd s1 = 0x30 then [0x30] else takeWhile isDigit s1);
          s2 = drop (length ip) s1;
          hasFrac = (s2 \<noteq> [] \<and> hd s2 = 0x2E);
          fp = (if hasFrac then takeWhile isDigit (tl s2) else []);
          s3 = (if hasFrac then dropWhile isDigit (tl s2) else s2);
          hasExp = (s3 \<noteq> [] \<and> (hd s3 = 0x65 \<or> hd s3 = 0x45));
          s4 = (if hasExp then tl s3 else s3);
          eneg = (hasExp \<and> s4 \<noteq> [] \<and> hd s4 = 0x2D);
          s5 = (if hasExp \<and> s4 \<noteq> [] \<and> (hd s4 = 0x2D \<or> hd s4 = 0x2B) then tl s4 else s4);
          ep = (if hasExp then takeWhile isDigit s5 else []);
          s6 = (if hasExp then dropWhile isDigit s5 else s3);
          m = int (digitsValue (ip @ fp));
          ex = int (digitsValue ep)
      in if ip = [] \<or> (hasFrac \<and> fp = []) \<or> (hasExp \<and> ep = []) then None
         else Some (Dec (if neg then - m else m)
                        ((if eneg then - ex else ex) - int (length fp)), s6))"

definition startsWith :: "jsstring \<Rightarrow> jsstring \<Rightarrow> bool" where
  "startsWith s p = (take (length p) s = p)"

text \<open>
  The recursive descent over values, array elements and object members. Each function
  returns what it parsed and the text after it. A list of elements or members goes on
  only on a shorter text.
\<close>

function parseValue :: "jsstring \<Rightarrow> (jsval \<times> jsstring) option"
  and parseElements :: "jsstring \<Rightarrow> (jsval list \<times> jsstring) option"
  and parseMembers :: "jsstring \<Rightarrow> ((jsstring \<times> jsval) list \<times> jsstring) option"
where
  "parseValue s =
     (case dropWhile isWs s of
        [] \<Rightarrow> None
      | c # cs \<Rightarrow>
          if c = 0x22 then
            (case parseChars cs of Some (str, rest) \<Rightarrow> Some (Str str, rest) | None \<Rightarrow> None)
          else if c = 0x5B then
            (case dropWhile isWs cs of
               [] \<Rightarrow> None
             | d # ds \<Rightarrow>
                 if d = 0x5D then Some (Arr [], ds)
                 else (case parseElements cs of
                         Some (xs, rest) \<Rightarrow> Some (Arr xs, rest)
                       | None \<Rightarrow> None))
          else if c = 0x7B then
            (case dropWhile isWs cs of
               [] \<Rightarrow> None
             | d # ds \<Rightarrow>
                 if d = 0x7D then Some (Obj [], ds)
                 else (case parseMembers cs of
                         Some (kvs, rest) \<Rightarrow>
                           Some (Obj (foldl (\<lambda>acc (k, v). AList.update k v acc) [] kvs), rest)
                       | None \<Rightarrow> None))
          else if startsWith (c # cs) (lit ''null'') then Some (Null, drop 4 (c # cs))
          else if startsWith (c # cs) (lit ''true'') then Some (Boolean True, drop 4 (c # cs))
          else if startsWith (c # cs) (lit ''false'') then Some (Boolean False, drop 5 (c # cs))
          else (case parseNumber (c # cs) of
                  Some (n, rest) \<Rightarrow> Some (Num n, rest)
                | None \<Rightarrow> None))"
| "parseElements s =
     (case parseValue s of
        None \<Rightarrow> None
      | Some (v, rest) \<Rightarrow>
          (case dropWhile isWs rest of
             [] \<Rightarrow> None
           | c # cs \<Rightarrow>
               if c = 0x5D then Some ([v], cs)
               else if c = 0x2C \<and> length cs < length s then
                 (case parseElements cs of
                    Some (vs, r) \<Rightarrow> Some (v # vs, r)
                  | None \<Rightarrow> None)
               else None))"
| "parseMembers s =
     (case dropWhile isWs s of
        [] \<Rightarrow> None
      | q # s1 \<Rightarrow>
          if q \<noteq> 0x22 then None
          else
            (case parseChars s1 of
               None \<Rightarrow> None
             | Some (k, s2) \<Rightarrow>
                 (case dropWhile isWs s2 of
                    [] \<Rightarrow> None
                  | colon # s3 \<Rightarrow>
                      if colon \<noteq> 0x3A \<or> \<not> length s3 < length s then None
                      else
                        (case parseValue s3 of
                           None \<Rightarrow> None
                         | Some (v, rest) \<Rightarrow>
                             (case dropWhile isWs rest of
                                [] \<Rightarrow> None
                              | c # cs \<Rightarrow>
                                  if c = 0x7D then Some ([(k, v)], cs)
                                  else if c = 0x2C \<and> length cs < length s then
                                    (case parseMembers cs of
                                       Some (kvs, r) \<Rightarrow> Some ((k, v) # kvs, r)
                                     | None \<Rightarrow> None)
                                  else None)))))"
  by pat_completeness auto
termination
proof -
  have shorter: "n < length s" if "length (dropWhile isWs s) = Suc n" for s :: jsstring and n
    using that length_dropWhile_le [of isWs s] by simp
  show ?thesis
    by (relation "measures [\<lambda>x. case x of Inl s \<Rightarrow> length s | Inr (Inl s) \<Rightarrow> length s
                                        | Inr (Inr s) \<Rightarrow> length s,
                            \<lambda>x. case x of Inl s \<Rightarrow> 0 | Inr (Inl s) \<Rightarrow> 1 | Inr (Inr s) \<Rightarrow> 1]")
       (auto dest!: arg_cong [where f = length] simp: shorter)
qed

declare parseValue.simps [simp del] parseElements.simps [simp del] parseMembers.simps [simp del]

text \<open>\<open>JSON.parse(text)\<close>: one value with white space around it; \<open>None\<close> is a SyntaxError.\<close>

definition JSON_parse :: "jsstring \<Rightarrow> jsval option" where
  "JSON_parse s =
     (case parseValue s of
        Some (v, rest) \<Rightarrow> if dropWhile isWs rest = [] then Some v else None
      | None \<Rightarrow> None)"


section \<open>Number(string)\<close>

definition radixValue :: "nat \<Rightarrow> jsstring \<Rightarrow> jsnum" where
  "radixValue r ds =
     (if ds \<noteq> [] \<and> list_all (\<lambda>c. case hexVal c of Some d \<Rightarrow> d < r | None \<Rightarrow> False) ds
      then Dec (int (foldl (\<lambda>n c. r * n + (case hexVal c of Some d \<Rightarrow> d | None \<Rightarrow> 0)) 0 ds)) 0
      else NaN)"

text \<open>
  A decimal literal: an optional sign, then \<open>Infinity\<close> or digits with an optional
  fraction and exponent; digits are needed before or after the point. Anything left over
  makes the result NaN.
\<close>

definition parseDecimal :: "jsstring \<Rightarrow> jsnum" where
  "parseDecimal s =
     (let neg = (s \<noteq> [] \<and> hd s = 0x2D);
          s1 = (if s \<noteq> [] \<and> (hd s = 0x2D \<or> hd s = 0x2B) then tl s else s);
          ip = takeWhile isDigit s1;
          s2 = dropWhile isDigit s1;
          hasFrac = (s2 \<noteq> [] \<and> hd s2 = 0x2E);
          fp = (if hasFrac then takeWhile isDigit (tl s2) else []);
          s3 = (if hasFrac then dropWhile isDigit (tl s2) else s2);
          hasExp = (s3 \<noteq> [] \<and> (hd s3 = 0x65 \<or> hd s3 = 0x45));
          s4 = (if hasExp then tl s3 else s3);
          eneg = (hasExp \<and> s4 \<noteq> [] \<and> hd s4 = 0x2D);
          s5 = (if hasExp \<and> s4 \<noteq> [] \<and> (hd s4 = 0x2D \<or> hd s4 = 0x2B) then tl s4 else s4);
          ep = (if hasExp then takeWhile isDigit s5 else []);
          s6 = (if hasExp then dropWhile isDigit s5 else s3);
          m = int (digitsValue (ip @ fp));
          ex = int (digitsValue ep)
      in if s1 = lit ''Infinity'' then Infinite neg
         else if (ip = [] \<and> fp = []) \<or> (hasExp \<and> ep = []) \<or> s6 \<noteq> [] then NaN
         else Dec (if neg then - m else m) ((if eneg then - ex else ex) - int (length fp)))"

text \<open>
  \<open>Number(s)\<close>: white space around the text is dropped; the empty text is 0; \<open>0x\<close>,
  \<open>0o\<close> and \<open>0b\<close> start a hexadecimal, octal or binary integer.
\<close>

definition Number :: "jsstring \<Rightarrow> jsnum" where
  "Number s =
     (let t = trim s
      in if t = [] then Dec 0 0
         else if startsWith t (lit ''0x'') \<or> startsWith t (lit ''0X'') then radixValue 16 (drop 2 t)
         else if startsWith t (lit ''0o'') \<or> startsWith t (lit ''0O'') then radixValue 8 (drop 2 t)
         else if startsWith t (lit ''0b'') \<or> startsWith t (lit ''0B'') then radixValue 2 (drop 2 t)
         else parseDecimal t)"

section \<open>formatTranslation\<close>

text \<open>\<open>raw.replace(/^\[|\]$/g, '')\<close>: an opening bracket at the start and a closing one at the end go.\<close>

definition stripBrackets :: "jsstring \<Rightarrow> jsstring" where
  "stripBrackets raw =
     (let s1 = (if raw \<noteq> [] \<and> hd raw = 0x5B then tl raw else raw)
      in if s1 \<noteq> [] \<and> last s1 = 0x5D then butlast s1 else s1)"

text \<open>The separator of the joined senses is the full-width semicolon U+FF1B.\<close>

definition formatTranslation :: "jsstring \<Rightarrow> jsstring" where
  "formatTranslation raw =
     (if raw = [] then []
      else case JSON_parse raw of
             Some parsed \<Rightarrow>
               (case parsed of
                  Arr xs \<Rightarrow> join [0xFF1B] xs
                | _ \<Rightarrow> toString parsed)
           | None \<Rightarrow> trim (filter (\<lambda>c. c \<noteq> 0x22) (stripBrackets raw)))"

section \<open>Entries and records\<close>

record Def =
  pos :: jsstring
  trans' :: jsstring

record WordEntry =
  rank :: jsstring
  word :: jsstring
  definitions :: "Def list"
  rawTrans :: jsstring

record Video =
  cover :: jsval
  title :: jsval
  url :: jsval

text \<open>
  The fields read from the lookup response hold whatever value \<open>getDeep\<close> returns, so
  they are \<open>jsval\<close>; the interface declares them as strings and string arrays.
\<close>

record ProcessedWord =
  text' :: jsstring
  translation :: jsstring
  phoneticUs :: jsval
  phoneticUk :: jsval
  partOfSpeech :: jsstring
  inflections :: jsval
  tags :: jsval
  cocaRank :: jsnum
  image' :: jsval
  video :: Video

record FileResult =
  fileName :: jsstring
  data :: "ProcessedWord list"

section \<open>parseMarkdownFile\<close>

text \<open>
  \<open>content.split(/\n\s*\n/)\<close>. A separator starts with a line feed and runs through the
  white space after it up to its last line feed; \<open>sepLength\<close> is its length when the
  text starts with one.
\<close>

definition sepLength :: "jsstring \<Rightarrow> nat option" where
  "sepLength s =
     (case s of
        [] \<Rightarrow> None
      | c # cs \<Rightarrow>
          let w = takeWhile isSpace cs
          in if c = 0x0A \<and> 0x0A \<in> set w
             then Some (Suc (length w - length (takeWhile (\<lambda>x. x \<noteq> 0x0A) (rev w))))
             else None)"

function splitBlocks :: "jsstring \<Rightarrow> jsstring list" where
  "splitBlocks [] = [[]]"
| "splitBlocks (c # cs) =
     (case sepLength (c # cs) of
        Some n \<Rightarrow> [] # splitBlocks (drop n (c # cs))
      | None \<Rightarrow>
          (case splitBlocks cs of
             b # bs \<Rightarrow> (c # b) # bs
           | [] \<Rightarrow> [[c]]))"
  by pat_completeness auto
termination
  by (relation "measure length") (auto simp: sepLength_def Let_def split: if_splits)

text \<open>
  \<open>line.match(/^(\d+)\s+(.+)$/)\<close>: digits, white space, and a rest without line
  terminators (the dot does not match them); the groups are the digits and the rest. The
  white space gives its last character to the rest when nothing else follows.
\<close>

definition isLineTerminator :: "16 word \<Rightarrow> bool" where
  "isLineTerminator c = (c = 0x0A \<or> c = 0x0D \<or> c = 0x2028 \<or> c = 0x2029)"

definition titleMatch :: "jsstring \<Rightarrow> (jsstring \<times> jsstring) option" where
  "titleMatch line =
     (let ds = takeWhile isDigit line;
          r1 = dropWhile isDigit line;
          ws = takeWhile isSpace r1;
          r2 = dropWhile isSpace r1
      in if ds = [] \<or> ws = [] then None
         else if r2 \<noteq> [] then
           (if list_ex isLineTerminator r2 then None else Some (ds, r2))
         else if 2 \<le> length ws \<and> \<not> isLineTerminator (last ws) then Some (ds, [last ws])
         else None)"

text \<open>\<open>s.includes(sub)\<close>\<close>

fun includes' :: "jsstring \<Rightarrow> jsstring \<Rightarrow> bool" where
  "includes' [] sub = (sub = [])"
| "includes' (c # cs) sub = (startsWith (c # cs) sub \<or> includes' cs sub)"

text \<open>
  One match of \<open>/([a-z]+\.)\s*(\[[^\]]+\])/\<close> at the start of the text: lower-case
  letters and a dot, white space, and a bracketed text that is not empty; the result is
  the definition (the letters without the dot, the bracketed text) and the text after the
  match. \<open>posLoop\<close> is the loop of \<open>posRegex.exec\<close>: the matches from left to right.
\<close>

definition isLower :: "16 word \<Rightarrow> bool" where
  "isLower c = (0x61 \<le> c \<and> c \<le> 0x7A)"

definition posMatch :: "jsstring \<Rightarrow> (Def \<times> jsstring) option" where
  "posMatch s =
     (let ls = takeWhile isLower s;
          r1 = dropWhile isLower s;
          r2 = dropWhile isSpace (tl r1);
          body = takeWhile (\<lambda>c. c \<noteq> 0x5D) (tl r2);
          r3 = dropWhile (\<lambda>c. c \<noteq> 0x5D) (tl r2)
      in if ls \<noteq> [] \<and> r1 \<noteq> [] \<and> hd r1 = 0x2E \<and> r2 \<noteq> [] \<and> hd r2 = 0x5B
            \<and> body \<noteq> [] \<and> r3 \<noteq> []
         then Some (\<lparr>pos = ls, trans' = 0x5B # body @ [0x5D]\<rparr>, tl r3)
         else None)"

function posLoop :: "jsstring \<Rightarrow> Def list" where
  "posLoop [] = []"
| "posLoop (c # cs) =
     (case posMatch (c # cs) of
        Some (d, rest) \<Rightarrow> d # posLoop rest
      | None \<Rightarrow> posLoop cs)"
  by pat_completeness auto
termination
proof (relation "measure length")
  fix c :: "16 word" and cs rest :: jsstring and d x
  assume "posMatch (c # cs) = Some x" and "(d, rest) = x"
  then have m: "posMatch (c # cs) = Some (d, rest)" by simp
  let ?s = "c # cs"
  let ?r1 = "dropWhile isLower ?s"
  let ?r2 = "dropWhile isSpace (tl ?r1)"
  let ?r3 = "dropWhile (\<lambda>c. c \<noteq> 0x5D) (tl ?r2)"
  from m have rest: "rest = tl ?r3" and r3: "?r3 \<noteq> []"
    by (auto simp: posMatch_def Let_def split: if_splits)
  have "length ?r3 \<le> length (tl ?r2)" by (rule length_dropWhile_le)
  also have "\<dots> \<le> length ?r2" by simp
  also have "\<dots> \<le> length (tl ?r1)" by (rule length_dropWhile_le)
  also have "\<dots> \<le> length ?r1" by simp
  also have "\<dots> \<le> length ?s" by (rule length_dropWhile_le)
  finally have "length ?r3 \<le> length ?s" .
  with r3 rest have "length rest < length ?s" by (cases ?r3) auto
  then show "(rest, c # cs) \<in> measure length" by simp
qed simp_all

text \<open>The test of \<open>lines.find\<close> for the line of definitions.\<close>

definition isDefLine :: "jsstring \<Rightarrow> bool" where
  "isDefLine l =
     (includes' l (lit ''[\"'')
      \<and> (includes' l (lit ''n.'') \<or> includes' l (lit ''adj.'') \<or> includes' l (lit ''v.'')
         \<or> includes' l (lit ''adv.'') \<or> includes' l (lit ''prep.'') \<or> includes' l (lit ''conj.'')))"

text \<open>The body of the loop over the blocks; \<open>None\<close> when the block is skipped.\<close>

definition parseBlock :: "jsstring \<Rightarrow> WordEntry option" where
  "parseBlock block =
     (let lines = filter (\<lambda>l. l \<noteq> []) (map trim (split 0x0A block))
      in if length lines < 2 then None
         else case titleMatch (hd lines) of
                None \<Rightarrow> None
              | Some (r, w) \<Rightarrow>
                  (case find isDefLine lines of
                     None \<Rightarrow> Some \<lparr>rank = r, word = w, definitions = [], rawTrans = []\<rparr>
                   | Some defLine \<Rightarrow>
                       let ds = posLoop defLine;
                           ds' = (if length ds = 0 \<and> startsWith defLine (lit ''['')
                                  then [\<lparr>pos = lit ''misc'', trans' = defLine\<rparr>] else ds)
                       in Some \<lparr>rank = r, word = w, definitions = ds', rawTrans = defLine\<rparr>))"

definition parseMarkdownFile :: "jsstring \<Rightarrow> WordEntry list" where
  "parseMarkdownFile text = List.map_filter parseBlock (splitBlocks text)"

section \<open>Records\<close>

definition bind :: "error + 'a \<Rightarrow> ('a \<Rightarrow> error + 'b) \<Rightarrow> error + 'b" where
  "bind m f = (case m of Inl e \<Rightarrow> Inl e | Inr x \<Rightarrow> f x)"

text \<open>\<open>a || b\<close>\<close>

definition orElse :: "jsval \<Rightarrow> jsval \<Rightarrow> jsval" where
  "orElse a b = (if falsy a then b else a)"

text \<open>
  \<open>entry.definitions.length > 0 ? entry.definitions : [{pos: "unknown", trans: entry.rawTrans}]\<close>
\<close>

definition definitionLoop :: "WordEntry \<Rightarrow> Def list" where
  "definitionLoop entry =
     (if length (definitions entry) > 0 then definitions entry
      else [\<lparr>pos = lit ''unknown'', trans' = rawTrans entry\<rparr>])"

text \<open>The object literal \<open>processed\<close>, its fields evaluated in the order they are written.\<close>

definition processed :: "jsval \<Rightarrow> WordEntry \<Rightarrow> Def \<Rightarrow> error + ProcessedWord" where
  "processed apiData entry d =
     bind (getDeep apiData (lit ''ec.word[0].usphone'') (Str [])) (\<lambda>us.
     bind (getDeep apiData (lit ''ec.word[0].ukphone'') (Str [])) (\<lambda>uk.
     bind (getDeep apiData (lit ''collins_primary.words.indexforms'') (Arr [])) (\<lambda>infl.
     bind (getDeep apiData (lit ''ec.exam_type'') (Arr [])) (\<lambda>tgs.
     bind (getDeep apiData (lit ''pic_dict.pic[0].image'') (Str [])) (\<lambda>img.
     bind (getDeep apiData (lit ''word_video.word_videos[0].video.cover'') (Str [])) (\<lambda>c.
     bind (getDeep apiData (lit ''word_video.word_videos[0].video.title'') (Str [])) (\<lambda>t.
     bind (getDeep apiData (lit ''word_video.word_videos[0].video.url'') (Str [])) (\<lambda>u.
       Inr \<lparr>text' = word entry,
            translation = formatTranslation (trans' d),
            phoneticUs = us,
            phoneticUk = uk,
            partOfSpeech = pos d,
            inflections = orElse infl (Arr []),
            tags = orElse tgs (Arr []),
            cocaRank = Number (rank entry),
            image' = img,
            video = \<lparr>cover = c, title = t, url = u\<rparr>\<rparr>))))))))"

text \<open>\<open>definitionLoop.forEach(def => ... push(processed))\<close>: the records pushed, in order.\<close>

fun forEach :: "('a \<Rightarrow> error + 'b) \<Rightarrow> 'a list \<Rightarrow> error + 'b list" where
  "forEach f [] = Inr []"
| "forEach f (x # xs) = bind (f x) (\<lambda>y. bind (forEach f xs) (\<lambda>ys. Inr (y # ys)))"

definition expandEntry :: "jsval \<Rightarrow> WordEntry \<Rightarrow> error + ProcessedWord list" where
  "expandEntry apiData entry = forEach (processed apiData entry) (definitionLoop entry)"

text \<open>
  The value a read of the response comes to (\<open>getDeep_value\<close>), and the record that
  \<open>processed\<close> builds from these values (\<open>processed_returns\<close>).
\<close>

definition fieldOr :: "jsval \<Rightarrow> jsstring \<Rightarrow> jsval \<Rightarrow> jsval" where
  "fieldOr apiData path d = (if falsy apiData then d else spec_get apiData path d)"

definition record_of :: "jsval \<Rightarrow> WordEntry \<Rightarrow> Def \<Rightarrow> ProcessedWord" where
  "record_of apiData entry d =
     \<lparr>text' = word entry,
      translation = formatTranslation (trans' d),
      phoneticUs = fieldOr apiData (lit ''ec.word[0].usphone'') (Str []),
      phoneticUk = fieldOr apiData (lit ''ec.word[0].ukphone'') (Str []),
      partOfSpeech = pos d,
      inflections = orElse (fieldOr apiData (lit ''collins_primary.words.indexforms'') (Arr [])) (Arr []),
      tags = orElse (fieldOr apiData (lit ''ec.exam_type'') (Arr [])) (Arr []),
      cocaRank = Number (rank entry),
      image' = fieldOr apiData (lit ''pic_dict.pic[0].image'') (Str []),
      video = \<lparr>cover = fieldOr apiData (lit ''word_video.word_videos[0].video.cover'') (Str []),
               title = fieldOr apiData (lit ''word_video.word_videos[0].video.title'') (Str []),
               url = fieldOr apiData (lit ''word_video.word_videos[0].video.url'') (Str [])\<rparr>\<rparr>"


section \<open>The enrichment run\<close>

text \<open>\<open>xs.slice(start, end)\<close>: negative positions count from the end.\<close>

definition slice :: "'a list \<Rightarrow> int \<Rightarrow> int \<Rightarrow> 'a list" where
  "slice xs start end' =
     (let len = int (length xs);
          k = (if start < 0 then max (len + start) 0 else min start len);
          final = (if end' < 0 then max (len + end') 0 else min end' len)
      in take (nat (final - k)) (drop (nat k) xs))"

record Progress =
  current :: nat
  total :: nat
  currentWord :: jsstring

text \<open>
  The state of a run. \<open>processing\<close>, \<open>progress\<close> and \<open>results\<close> are state of the
  component; \<open>allResults\<close>, \<open>globalProcessedCount\<close> and \<open>fileProcessedWords\<close> are
  the variables of processFiles. \<open>now\<close> counts the points at which the run has waited
  for a timer or for the network, where the interface can change the flags; \<open>started\<close>
  counts the files whose processing has begun. The log is left out.
\<close>

record State =
  processing :: bool
  progress :: Progress
  results :: "FileResult list"
  allResults :: "FileResult list"
  globalProcessedCount :: nat
  fileProcessedWords :: "ProcessedWord list"
  now :: nat
  started :: nat

text \<open>
  What the run meets from outside. \<open>pausedRef e t\<close> and \<open>abortRef e t\<close> are the flags
  as the run reads them after its \<open>t\<close>-th wait (in App.tsx the only flag is
  stopProcessingRef, read as \<open>abortRef\<close>). \<open>fetchWordData e t k w\<close> is what the lookup
  of the word \<open>w\<close> returns to task \<open>k\<close> of the window dispatched at \<open>t\<close> (the parsed
  response, or null when the request fails). \<open>completion e t\<close> decides in which order
  the lookups of that window complete.
\<close>

record Env =
  pausedRef :: "nat \<Rightarrow> bool"
  abortRef :: "nat \<Rightarrow> bool"
  fetchWordData :: "nat \<Rightarrow> nat \<Rightarrow> jsstring \<Rightarrow> jsval"
  completion :: "nat \<Rightarrow> nat list"

text \<open>
  The order in which the pending tasks of a window complete: each choice picks one of
  the tasks still pending; without choices they complete in the order they were started.
\<close>

function complete :: "nat list \<Rightarrow> 'a list \<Rightarrow> 'a list" where
  "complete cs [] = []"
| "complete [] (x # xs) = x # complete [] xs"
| "complete (c # cs) (x # xs) =
     (let k = c mod length (x # xs)
      in (x # xs) ! k # complete cs (take k (x # xs) @ drop (Suc k) (x # xs)))"
  by pat_completeness auto
termination
  by (relation "measure (\<lambda>(cs, xs). length xs)") auto

definition CONCURRENCY :: nat where
  "CONCURRENCY = 5"

text \<open>
  \<open>!!getDeep(apiData, "ec.word[0].usphone") || !!getDeep(apiData, "translation")\<close>
\<close>

definition success :: "jsval \<Rightarrow> error + bool" where
  "success apiData =
     bind (getDeep apiData (lit ''ec.word[0].usphone'') (Str [])) (\<lambda>a.
       if \<not> falsy a then Inr True
       else bind (getDeep apiData (lit ''translation'') (Str [])) (\<lambda>b. Inr (\<not> falsy b)))"

text \<open>
  The part of a task after its lookup has returned: the records of the entry are pushed
  and the entry is counted. \<open>None\<close> stands for an exception, which rejects the promise
  of the run.
\<close>

definition finishTask :: "Env \<Rightarrow> nat \<Rightarrow> nat \<times> WordEntry \<Rightarrow> State \<Rightarrow> State option" where
  "finishTask e t task st =
     (let apiData = fetchWordData e t (fst task) (word (snd task))
      in case bind (success apiData) (\<lambda>ok. expandEntry apiData (snd task)) of
           Inl err \<Rightarrow> None
         | Inr rs \<Rightarrow>
             Some (st\<lparr>fileProcessedWords := fileProcessedWords st @ rs,
                      globalProcessedCount := Suc (globalProcessedCount st),
                      progress := (progress st)\<lparr>current := Suc (globalProcessedCount st)\<rparr>\<rparr>))"

fun finishTasks :: "Env \<Rightarrow> nat \<Rightarrow> (nat \<times> WordEntry) list \<Rightarrow> State \<Rightarrow> State option" where
  "finishTasks e t [] st = Some st"
| "finishTasks e t (task # tasks) st =
     (case finishTask e t task st of
        None \<Rightarrow> None
      | Some st' \<Rightarrow> finishTasks e t tasks st')"

text \<open>
  \<open>await Promise.all(chunk.map(async (entry) => ...))\<close>. Every task starts at once: with
  the abort flag set each returns at once and nothing is waited for; otherwise each
  shows its word and sends its lookup, and the tasks finish in the order the lookups
  complete.
\<close>

definition runWindow :: "Env \<Rightarrow> WordEntry list \<Rightarrow> State \<Rightarrow> State option" where
  "runWindow e chunk st =
     (if abortRef e (now st) then Some st
      else
        let st1 = foldl (\<lambda>s entry. s\<lparr>progress := (progress s)\<lparr>currentWord := word entry\<rparr>\<rparr>) st chunk
        in case finishTasks e (now st)
                  (complete (completion e (now st)) (zip [0..<length chunk] chunk)) st1 of
             None \<Rightarrow> None
           | Some st2 \<Rightarrow> Some (st2\<lparr>now := Suc (now st)\<rparr>))"

text \<open>
  The pause check loop: \<open>while (pausedRef.current) { if (abortRef.current) break; await ... }\<close>.
  It returns the time at which it is left, and does not return while the run stays paused.
\<close>

partial_function (option) pauseLoop :: "Env \<Rightarrow> nat \<Rightarrow> nat option" where
  "pauseLoop e t =
     (if pausedRef e t then (if abortRef e t then Some t else pauseLoop e (Suc t))
      else Some t)"

declare pauseLoop.simps [code]

text \<open>The loop over the windows of one file in src/unnamed/part_000 (with pause).\<close>

function windowLoop :: "Env \<Rightarrow> WordEntry list \<Rightarrow> nat \<Rightarrow> State \<Rightarrow> State option" where
  "windowLoop e words i st =
     (if i < length words then
        (if abortRef e (now st) then Some st
         else case pauseLoop e (now st) of
                None \<Rightarrow> None
              | Some t \<Rightarrow>
                  (case runWindow e (slice words (int i) (int (i + CONCURRENCY))) (st\<lparr>now := t\<rparr>) of
                     None \<Rightarrow> None
                   | Some st' \<Rightarrow> windowLoop e words (i + CONCURRENCY) st'))
      else Some st)"
  by pat_completeness auto
termination
  by (relation "measure (\<lambda>(e, words, i, st). length words - i)") (auto simp: CONCURRENCY_def)

declare windowLoop.simps [simp del]

text \<open>The loop over the parsed files, each a file name with its entries.\<close>

fun fileLoop :: "Env \<Rightarrow> (jsstring \<times> WordEntry list) list \<Rightarrow> State \<Rightarrow> State option" where
  "fileLoop e [] st = Some st"
| "fileLoop e (fileObj # rest) st =
     (if abortRef e (now st) then Some st
      else case windowLoop e (snd fileObj) 0
                  (st\<lparr>fileProcessedWords := [], started := Suc (started st)\<rparr>) of
             None \<Rightarrow> None
           | Some st1 \<Rightarrow>
               let st2 = st1\<lparr>allResults := allResults st1 @
                             [\<lparr>fileName = fst fileObj, data = fileProcessedWords st1\<rparr>]\<rparr>
               in if abortRef e (now st2) then Some st2 else fileLoop e rest st2)"

text \<open>
  \<open>files.map(async (file) => ...)\<close>: every selected file, given by its name and its text,
  with the entries parsed from the text.
\<close>

definition parseFiles :: "(jsstring \<times> jsstring) list \<Rightarrow> (jsstring \<times> WordEntry list) list" where
  "parseFiles files = map (\<lambda>file. (fst file, parseMarkdownFile (snd file))) files"

text \<open>
  processFiles of src/unnamed/part_000. The results are published only when the abort
  flag is clear at the end.
\<close>

definition processFiles :: "Env \<Rightarrow> (jsstring \<times> jsstring) list \<Rightarrow> State \<Rightarrow> State option" where
  "processFiles e files st =
     (if length files = 0 then Some st
      else
        let parsedFiles = parseFiles files;
            totalWords = sum_list (map (\<lambda>f. length (snd f)) parsedFiles);
            st1 = st\<lparr>processing := True, results := [], allResults := [],
                     progress := \<lparr>current = 0, total = totalWords,
                                   currentWord = [0x51C6, 0x5907, 0x5F00, 0x59CB] @ lit ''...''\<rparr>,
                     globalProcessedCount := 0, now := 0, started := 0\<rparr>
        in case fileLoop e parsedFiles st1 of
             None \<Rightarrow> None
           | Some st2 \<Rightarrow>
               Some ((if \<not> abortRef e (now st2) then st2\<lparr>results := allResults st2\<rparr> else st2)
                       \<lparr>processing := False\<rparr>))"





section \<open>Notions for the properties of a run\<close>

text \<open>The number of records the entries of a file expand to: one per definition, and one for an entry without definitions.\<close>

definition recordCount :: "WordEntry list \<Rightarrow> nat" where
  "recordCount ws = sum_list (map (\<lambda>w. max 1 (length (definitions w))) ws)"

text \<open>
  The records a task pushes (\<open>finishTask_eq\<close>), in definition order, and the records
  of a window: those of its tasks in the order the lookups complete.
\<close>

definition entryRecords :: "Env \<Rightarrow> nat \<Rightarrow> nat \<times> WordEntry \<Rightarrow> ProcessedWord list" where
  "entryRecords e t task =
     map (record_of (fetchWordData e t (fst task) (word (snd task))) (snd task))
       (definitionLoop (snd task))"

definition windowRecords :: "Env \<Rightarrow> nat \<Rightarrow> WordEntry list \<Rightarrow> ProcessedWord list" where
  "windowRecords e t chunk =
     concat (map (entryRecords e t) (complete (completion e t) (zip [0..<length chunk] chunk)))"

text \<open>What a window leaves as it is.\<close>

definition frame :: "State \<Rightarrow> State \<Rightarrow> bool" where
  "frame st st' =
     (allResults st' = allResults st \<and> results st' = results st \<and> started st' = started st
      \<and> processing st' = processing st \<and> total (progress st') = total (progress st))"

text \<open>The consecutive windows of CONCURRENCY entries that the window loop slices off.\<close>

function windows :: "'a list \<Rightarrow> 'a list list" where
  "windows xs = (if xs = [] then [] else take CONCURRENCY xs # windows (drop CONCURRENCY xs))"
  by pat_completeness auto
termination
  by (relation "measure length") (auto simp: CONCURRENCY_def)

declare windows.simps [simp del]

text \<open>
  \<open>windowwise e ws recs\<close>: the records are those of the windows of \<open>ws\<close> in source
  order, each window dispatched at some time.
\<close>

definition windowwise :: "Env \<Rightarrow> WordEntry list \<Rightarrow> ProcessedWord list \<Rightarrow> bool" where
  "windowwise e ws recs =
     (\<exists>ts. length ts = length (windows ws)
         \<and> recs = concat (map2 (windowRecords e) ts (windows ws)))"

text \<open>
  \<open>partialResults files rs\<close>: the results are those of the first files, in order and
  under their names; every result but the last has all the records of its file, the last
  one has at most that many.
\<close>

fun partialResults :: "(jsstring \<times> WordEntry list) list \<Rightarrow> FileResult list \<Rightarrow> bool" where
  "partialResults fs [] = True"
| "partialResults [] (r # rs) = False"
| "partialResults (f # fs) (r # rs) =
     (fileName r = fst f
      \<and> (if rs = [] then length (data r) \<le> recordCount (snd f)
          else length (data r) = recordCount (snd f))
      \<and> partialResults fs rs)"


text \<open>The state of the component before a run (the initial values of its useState hooks).\<close>

definition initialState :: State where
  "initialState =
     \<lparr>processing = False, progress = \<lparr>current = 0, total = 0, currentWord = []\<rparr>,
      results = [], allResults = [], globalProcessedCount = 0, fileProcessedWords = [],
      now = 0, started = 0\<rparr>"

text \<open>
  An environment in which the run is never paused, every lookup fails, the lookups of
  every window complete as \<open>cs\<close> chooses, and the abort flag is set from the \<open>n\<close>-th
  wait on (\<open>Some n\<close>) or never (\<open>None\<close>).
\<close>

definition scenario :: "nat option \<Rightarrow> nat list \<Rightarrow> Env" where
  "scenario cancel cs =
     \<lparr>pausedRef = (\<lambda>t. False),
      abortRef = (\<lambda>t. case cancel of None \<Rightarrow> False | Some n \<Rightarrow> n \<le> t),
      fetchWordData = (\<lambda>t k w. Null),
      completion = (\<lambda>t. cs)\<rparr>"


section \<open>Export\<close>

record 'a Download =
  filename :: jsstring
  content :: 'a

definition endsWith :: "jsstring \<Rightarrow> jsstring \<Rightarrow> bool" where
  "endsWith s suffix = (length suffix \<le> length s \<and> drop (length s - length suffix) s = suffix)"

text \<open>
  downloadJSON hands the data to the browser under the name with the extension
  \<open>.json\<close>; the download is kept as the name and the data written.
\<close>

definition downloadJSON :: "jsstring \<Rightarrow> 'a \<Rightarrow> 'a Download" where
  "downloadJSON name d =
     \<lparr>filename = (if endsWith name (lit ''.json'') then name else name @ lit ''.json''),
      content = d\<rparr>"

text \<open>
  \<open>Math.floor(i / splitCount) + 1\<close>: dividing by zero gives NaN or an infinity, and
  the sum stays so.
\<close>

definition batchNumber :: "int \<Rightarrow> int \<Rightarrow> jsnum" where
  "batchNumber i splitCount =
     (if splitCount = 0 then (if i = 0 then NaN else Infinite (i < 0))
      else Dec (i div splitCount + 1) 0)"

text \<open>
  The loop of handleExportByQuantity; the downloads made so far are \<open>done\<close>. The batch
  size is an integer (a fraction typed into the form is left out).
\<close>

partial_function (option) exportLoop ::
  "'a list \<Rightarrow> int \<Rightarrow> int \<Rightarrow> 'a list Download list \<Rightarrow> 'a list Download list option" where
  "exportLoop allData splitCount i done =
     (if i < int (length allData) then
        exportLoop allData splitCount (i + splitCount)
          (done @ [downloadJSON (lit ''vocabulary_batch_'' @ numToString (batchNumber i splitCount))
                     (slice allData i (i + splitCount))])
      else Some done)"

declare exportLoop.simps [code]

definition handleExportByQuantity ::
  "FileResult list \<Rightarrow> int \<Rightarrow> ProcessedWord list Download list option" where
  "handleExportByQuantity res splitCount = exportLoop (concat (map data res)) splitCount 0 []"

text \<open>The download the loop makes for batch \<open>k\<close> (counted from 0) of size \<open>b\<close>.\<close>

definition batch :: "'a list \<Rightarrow> nat \<Rightarrow> nat \<Rightarrow> 'a list Download" where
  "batch allData b k =
     downloadJSON (lit ''vocabulary_batch_'' @ numToString (Dec (int k + 1) 0))
       (take b (drop (k * b) allData))"


section \<open>Properties of getDeep\<close>

lemma foldl_spec_read_Undefined: "foldl spec_read Undefined ks = Undefined"
  by (induction ks) (simp_all add: spec_read_def absent_def)

lemma walk_foldl:
  "walk v ks d = Inr (if foldl spec_read v ks = Undefined then d else foldl spec_read v ks)"
proof (induction ks arbitrary: v)
  case Nil
  show ?case by simp
next
  case (Cons k ks)
  show ?case
  proof (cases "v = Null \<or> v = Undefined")
    case True
    then have "spec_read v k = Undefined"
      by (auto simp: spec_read_def absent_def)
    with True show ?thesis
      by (auto simp: foldl_spec_read_Undefined)
  next
    case False
    then obtain w where w: "getProp v k = Inr w"
      by (cases v) auto
    with False have "spec_read v k = w"
      by (simp add: spec_read_def absent_def)
    with False w Cons.IH [of w] show ?thesis
      by simp
  qed
qed

lemma getDeep_value:
  "getDeep obj path d = Inr (if falsy obj then d else spec_get obj path d)"
proof (cases "falsy obj")
  case True
  then show ?thesis by (simp add: getDeep_def)
next
  case False
  then have "\<not> absent obj" by (auto simp: absent_def)
  with False show ?thesis
    by (simp add: getDeep_def spec_get_def spec_resolve_def walk_foldl)
qed

lemma getDeep_returns: "\<exists>v. getDeep obj path d = Inr v"
  by (simp add: getDeep_value)



text \<open>
  C9: getDeep returns the default for every falsy root: undefined and null, and also 0,
  NaN, the empty string and false; the path is not looked at.
\<close>

theorem getDeep_falsy_root:
  "(falsy obj \<longrightarrow> getDeep obj path d = Inr d)
   \<and> falsy Undefined \<and> falsy Null \<and> falsy (Num (Dec 0 e)) \<and> falsy (Num NaN)
   \<and> falsy (Str []) \<and> falsy (Boolean False)"
  by (simp add: getDeep_def)

theorem getDeep_falsy_root_witness:
  "falsy (Str []) \<and> getProp (Str []) (lit ''length'') = Inr (Num (Dec 0 0))
   \<and> getDeep (Str []) (lit ''length'') Null = Inr Null"
  using getDeep_falsy_root [of "Str []" "lit ''length''" Null 0]
  by (simp add: lit_def)


section \<open>Properties of the batch export\<close>

lemma slice_nat:
  "slice xs (int i) (int i + int b) = take b (drop i xs)"
proof (cases "i \<le> length xs")
  case True
  then show ?thesis
    by (cases "i + b \<le> length xs") (auto simp: slice_def Let_def min_def nat_diff_distrib')
next
  case False
  then show ?thesis by (simp add: slice_def Let_def min_def)
qed

lemma ceil_div_less: "0 < b \<Longrightarrow> (k < (L + b - 1) div b) = (k * b < (L::nat))"
proof -
  assume b: "0 < b"
  have "(k < (L + b - 1) div b) = (Suc k \<le> (L + b - 1) div b)" by auto
  also have "\<dots> = (Suc k * b \<le> L + b - 1)"
    using b by (simp only: less_eq_div_iff_mult_less_eq)
  also have "\<dots> = (k * b < L)" using b by (cases b) auto
  finally show ?thesis .
qed

lemma exportLoop_from:
  assumes b: "0 < b"
  shows "exportLoop xs (int b) (int (k * b)) acc
         = Some (acc @ map (batch xs b) [k..<(length xs + b - 1) div b])"
proof (induction "(length xs + b - 1) div b - k" arbitrary: k acc)
  case 0
  then have "\<not> k < (length xs + b - 1) div b" by simp
  then have "\<not> k * b < length xs" using ceil_div_less [OF b, of k "length xs"] by simp
  then have "\<not> int (k * b) < int (length xs)" by (simp del: of_nat_mult)
  moreover have "[k..<(length xs + b - 1) div b] = []" using 0 by simp
  ultimately show ?case by (subst exportLoop.simps) (simp del: of_nat_mult)
next
  case (Suc n)
  then have k: "k < (length xs + b - 1) div b" by simp
  then have lt: "k * b < length xs" using ceil_div_less [OF b, of k "length xs"] by simp
  have num: "batchNumber (int (k * b)) (int b) = Dec (int k + 1) 0"
    using b by (simp add: batchNumber_def zdiv_int [symmetric] del: of_nat_mult)
  have sl: "slice xs (int (k * b)) (int (k * b) + int b) = take b (drop (k * b) xs)"
    by (rule slice_nat)
  have next_i: "int (k * b) + int b = int (Suc k * b)" by (simp add: algebra_simps)
  have IH: "exportLoop xs (int b) (int (Suc k * b)) (acc @ [batch xs b k])
            = Some ((acc @ [batch xs b k]) @ map (batch xs b) [Suc k..<(length xs + b - 1) div b])"
    using Suc by (intro Suc.hyps(1)) simp
  have "exportLoop xs (int b) (int (k * b)) acc
        = exportLoop xs (int b) (int (k * b) + int b)
            (acc @ [downloadJSON (lit ''vocabulary_batch_'' @ numToString (batchNumber (int (k * b)) (int b)))
                      (slice xs (int (k * b)) (int (k * b) + int b))])"
    using lt by (subst exportLoop.simps) (simp only: of_nat_less_iff if_True)
  also have "\<dots> = exportLoop xs (int b) (int (Suc k * b)) (acc @ [batch xs b k])"
    by (simp only: num sl) (simp only: next_i batch_def)
  also note IH
  finally show ?case using k by (simp add: upt_conv_Cons)
qed

lemma exportLoop_diverges:
  assumes "exportLoop xs B i acc = Some r"
  shows "0 < B \<or> \<not> i < int (length xs)"
proof (rule exportLoop.raw_induct
    [where P = "\<lambda>xs B i acc r. 0 < B \<or> \<not> i < int (length xs)", OF _ assms])
  fix f :: "'a list \<Rightarrow> int \<Rightarrow> int \<Rightarrow> 'a list Download list \<Rightarrow> 'a list Download list option"
  fix xs B i acc r
  assume IH: "\<And>xs B i acc r. f xs B i acc = Some r \<Longrightarrow> 0 < B \<or> \<not> i < int (length xs)"
  assume eq: "(if i < int (length xs)
               then f xs B (i + B)
                      (acc @ [downloadJSON (lit ''vocabulary_batch_'' @ numToString (batchNumber i B))
                                (slice xs i (i + B))])
               else Some acc) = Some r"
  show "0 < B \<or> \<not> i < int (length xs)"
  proof (cases "i < int (length xs)")
    case True
    with eq have "f xs B (i + B)
        (acc @ [downloadJSON (lit ''vocabulary_batch_'' @ numToString (batchNumber i B))
                  (slice xs i (i + B))]) = Some r"
      by simp
    from IH [OF this] True show ?thesis by arith
  next
    case False
    then show ?thesis by simp
  qed
qed


lemma concat_batches:
  "concat (map (\<lambda>k. take b (drop (k * b) xs)) [0..<n]) = take (n * b) xs"
proof (induction n)
  case 0
  show ?case by simp
next
  case (Suc n)
  have "take (n * b + b) xs = take (n * b) xs @ take b (drop (n * b) xs)"
    by (rule take_add)
  with Suc show ?case by (simp add: add.commute)
qed

lemma exportLoop_batches:
  assumes "0 < B"
  shows "exportLoop xs B 0 [] = Some (map (batch xs (nat B)) [0..<(length xs + nat B - 1) div nat B])"
proof -
  from assms have b: "0 < nat B" by simp
  have "exportLoop xs (int (nat B)) (int (0 * nat B)) []
        = Some ([] @ map (batch xs (nat B)) [0..<(length xs + nat B - 1) div nat B])"
    using b by (rule exportLoop_from)
  with assms show ?thesis by simp
qed

text \<open>
  C7: for a positive batch size \<open>B\<close> and a merged list of length \<open>L\<close> the export makes
  \<open>ceil(L / B)\<close> downloads, that is \<open>(L + B - 1) div B\<close>; download \<open>k\<close> (from 0) is
  named with the batch number \<open>k + 1\<close> and holds the \<open>B\<close> records from position
  \<open>k * B\<close> on; every download but the last holds exactly \<open>B\<close> records, the last one
  between 1 and \<open>B\<close>, and together they are the merged list.
\<close>

theorem export_by_quantity:
  assumes "0 < B"
  shows "\<exists>ps. handleExportByQuantity res B = Some ps
           \<and> int (length ps) = (int (length (concat (map data res))) + B - 1) div B
           \<and> (\<forall>k<length ps.
                 ps ! k = downloadJSON (lit ''vocabulary_batch_'' @ numToString (Dec (int k + 1) 0))
                            (take (nat B) (drop (k * nat B) (concat (map data res)))))
           \<and> (\<forall>k. Suc k < length ps \<longrightarrow> length (content (ps ! k)) = nat B)
           \<and> (ps \<noteq> [] \<longrightarrow> 0 < length (content (last ps)) \<and> length (content (last ps)) \<le> nat B)
           \<and> concat (map content ps) = concat (map data res)"
proof -
  define xs where "xs = concat (map data res)"
  define b where "b = nat B"
  define n where "n = (length xs + b - 1) div b"
  define ps where "ps = map (batch xs b) [0..<n]"
  from assms have b: "0 < b" and B: "B = int b" by (simp_all add: b_def)
  have run: "handleExportByQuantity res B = Some ps"
    using exportLoop_batches [OF assms, of xs]
    by (simp add: handleExportByQuantity_def xs_def ps_def n_def b_def)
  have len: "length ps = n" by (simp add: ps_def)
  have count: "int (length ps) = (int (length xs) + B - 1) div B"
  proof -
    have "int n = int (length xs + b - 1) div int b"
      by (simp add: n_def zdiv_int)
    also have "int (length xs + b - 1) = int (length xs) + int b - 1"
      using b by (simp add: of_nat_diff)
    finally show ?thesis by (simp add: len B)
  qed
  have nth: "ps ! k = downloadJSON (lit ''vocabulary_batch_'' @ numToString (Dec (int k + 1) 0))
                        (take b (drop (k * b) xs))" if "k < length ps" for k
    using that by (simp add: ps_def batch_def)
  have size: "length (content (ps ! k)) = min b (length xs - k * b)" if "k < length ps" for k
    using that by (simp add: nth downloadJSON_def min.commute)
  have inner: "length (content (ps ! k)) = b" if "Suc k < length ps" for k
  proof -
    from that have "Suc k * b < length xs"
      using ceil_div_less [OF b, of "Suc k" "length xs"] by (simp add: len n_def)
    then have "b \<le> length xs - k * b" by simp
    with that show ?thesis by (simp add: size)
  qed
  have final: "0 < length (content (last ps)) \<and> length (content (last ps)) \<le> b" if "ps \<noteq> []"
  proof -
    from that have k: "length ps - 1 < length ps" by simp
    then have "(length ps - 1) * b < length xs"
      using ceil_div_less [OF b, of "length ps - 1" "length xs"] by (simp add: len n_def)
    with b that k show ?thesis by (simp add: last_conv_nth size)
  qed
  have "\<not> n * b < length xs"
    using ceil_div_less [OF b, of n "length xs"] by (simp add: n_def)
  then have whole: "concat (map content ps) = xs"
    by (simp add: ps_def batch_def downloadJSON_def comp_def concat_batches)
  from run count nth inner final whole show ?thesis
    unfolding xs_def [symmetric] b_def [symmetric] by blast
qed

theorem export_by_quantity_witness:
  "(0::int) < 2
   \<and> (\<exists>ps. handleExportByQuantity
              [\<lparr>fileName = lit ''a.md'',
                data = replicate 3
                  \<lparr>text' = lit ''run'', translation = lit ''x'', phoneticUs = Str [],
                   phoneticUk = Str [], partOfSpeech = lit ''v'', inflections = Arr [],
                   tags = Arr [], cocaRank = Dec 1 0, image' = Str [],
                   video = \<lparr>cover = Str [], title = Str [], url = Str []\<rparr>\<rparr>\<rparr>] 2 = Some ps
            \<and> length ps = 2
            \<and> map filename ps = [lit ''vocabulary_batch_1.json'', lit ''vocabulary_batch_2.json'']
            \<and> map (\<lambda>p. length (content p)) ps = [2, 1])"
proof -
  let ?r = "\<lparr>text' = lit ''run'', translation = lit ''x'', phoneticUs = Str [],
                   phoneticUk = Str [], partOfSpeech = lit ''v'', inflections = Arr [],
                   tags = Arr [], cocaRank = Dec 1 0, image' = Str [],
                   video = \<lparr>cover = Str [], title = Str [], url = Str []\<rparr>\<rparr>"
  let ?res = "[\<lparr>fileName = lit ''a.md'', data = replicate 3 ?r\<rparr>]"
  have h: "(0::int) < 2" by simp
  from export_by_quantity [OF h, of ?res] obtain ps where
    run: "handleExportByQuantity ?res 2 = Some ps"
    and len: "int (length ps) = (int (length (concat (map data ?res))) + 2 - 1) div 2"
    by (elim exE conjE) (rule that, assumption+)
  from len have l2: "length ps = 2" by simp
  have "handleExportByQuantity ?res 2
        = Some [\<lparr>filename = lit ''vocabulary_batch_1.json'', content = [?r, ?r]\<rparr>,
                \<lparr>filename = lit ''vocabulary_batch_2.json'', content = [?r]\<rparr>]"
    by code_simp
  with run have "ps = [\<lparr>filename = lit ''vocabulary_batch_1.json'', content = [?r, ?r]\<rparr>,
                \<lparr>filename = lit ''vocabulary_batch_2.json'', content = [?r]\<rparr>]"
    by simp
  then have "map filename ps = [lit ''vocabulary_batch_1.json'', lit ''vocabulary_batch_2.json'']"
    and "map (\<lambda>p. length (content p)) ps = [2, 1]"
    by simp_all
  with run l2 h show ?thesis
    by (intro conjI exI [of _ ps])
qed

text \<open>
  C10: the export returns exactly when the merged list is empty or the batch size is
  positive; on a list with a record and a batch size of zero or less its loop does not end.
\<close>

theorem export_terminates_iff:
  "(\<exists>ps. handleExportByQuantity res B = Some ps) = (concat (map data res) = [] \<or> 0 < B)"
proof
  assume "\<exists>ps. handleExportByQuantity res B = Some ps"
  then obtain ps where "exportLoop (concat (map data res)) B 0 [] = Some ps"
    by (auto simp: handleExportByQuantity_def)
  from exportLoop_diverges [OF this] show "concat (map data res) = [] \<or> 0 < B"
    by auto
next
  assume "concat (map data res) = [] \<or> 0 < B"
  then show "\<exists>ps. handleExportByQuantity res B = Some ps"
  proof
    assume "concat (map data res) = []"
    then show ?thesis
      by (subst handleExportByQuantity_def, subst exportLoop.simps) simp
  next
    assume "0 < B"
    then show ?thesis
      by (simp add: handleExportByQuantity_def exportLoop_batches)
  qed
qed


theorem export_terminates_iff_witness:
  "handleExportByQuantity
     [\<lparr>fileName = lit ''a.md'',
       data = [\<lparr>text' = lit ''run'', translation = lit ''x'', phoneticUs = Str [],
                phoneticUk = Str [], partOfSpeech = lit ''v'', inflections = Arr [],
                tags = Arr [], cocaRank = Dec 1 0, image' = Str [],
                video = \<lparr>cover = Str [], title = Str [], url = Str []\<rparr>\<rparr>]\<rparr>] 0 = None
   \<and> handleExportByQuantity
     [\<lparr>fileName = lit ''a.md'',
       data = [\<lparr>text' = lit ''run'', translation = lit ''x'', phoneticUs = Str [],
                phoneticUk = Str [], partOfSpeech = lit ''v'', inflections = Arr [],
                tags = Arr [], cocaRank = Dec 1 0, image' = Str [],
                video = \<lparr>cover = Str [], title = Str [], url = Str []\<rparr>\<rparr>]\<rparr>] (- 1) = None
   \<and> handleExportByQuantity [] 0 = Some []"
proof -
  let ?res = "[\<lparr>fileName = lit ''a.md'',
       data = [\<lparr>text' = lit ''run'', translation = lit ''x'', phoneticUs = Str [],
                phoneticUk = Str [], partOfSpeech = lit ''v'', inflections = Arr [],
                tags = Arr [], cocaRank = Dec 1 0, image' = Str [],
                video = \<lparr>cover = Str [], title = Str [], url = Str []\<rparr>\<rparr>]\<rparr>]"
  have "handleExportByQuantity ?res 0 = None"
    using export_terminates_iff [of ?res 0] by simp
  moreover have "handleExportByQuantity ?res (- 1) = None"
    using export_terminates_iff [of ?res "- 1"] by simp
  moreover have "handleExportByQuantity [] 0 = Some []"
    by code_simp
  ultimately show ?thesis by (intro conjI)
qed



section \<open>Properties of the records of an entry\<close>

lemma forEach_Inr:
  assumes "\<And>x. x \<in> set xs \<Longrightarrow> f x = Inr (g x)"
  shows "forEach f xs = Inr (map g xs)"
  using assms by (induction xs) (simp_all add: bind_def)

lemma processed_returns: "processed apiData entry d = Inr (record_of apiData entry d)"
  by (simp add: processed_def record_of_def fieldOr_def bind_def getDeep_value)

lemma expandEntry_returns:
  "expandEntry apiData entry = Inr (map (record_of apiData entry) (definitionLoop entry))"
  unfolding expandEntry_def by (rule forEach_Inr) (rule processed_returns)

text \<open>
  C1, as stated: an entry without definitions gives one record whose translation equals
  the raw sense line. It fails on the entry parsed from the block \<open>1 run\<close>,
  \<open>v. see ["x"]\<close>: its raw sense line is not JSON, so formatTranslation strips the
  closing bracket and the quotes.
\<close>

theorem zero_definitions_counterexample:
  "parseMarkdownFile (lit ''1 run'' @ 0x0A # lit ''v. see [\"x\"]'')
     = [\<lparr>rank = lit ''1'', word = lit ''run'', definitions = [],
          rawTrans = lit ''v. see [\"x\"]''\<rparr>]
   \<and> definitions \<lparr>rank = lit ''1'', word = lit ''run'', definitions = [],
                 rawTrans = lit ''v. see [\"x\"]''\<rparr> = []
   \<and> map translation
         (case expandEntry Null \<lparr>rank = lit ''1'', word = lit ''run'', definitions = [],
                                   rawTrans = lit ''v. see [\"x\"]''\<rparr> of
            Inr rs \<Rightarrow> rs | Inl err \<Rightarrow> [])
       = [lit ''v. see [x'']
   \<and> lit ''v. see [x'' \<noteq> lit ''v. see [\"x\"]''"
  by code_simp

text \<open>
  C1, amended: an entry without definitions gives exactly one record, with the entry's
  headword, the part of speech \<open>unknown\<close>, and as translation the raw sense line as
  formatTranslation formats it.
\<close>

theorem zero_definitions_one_record:
  assumes "definitions entry = []"
  shows "\<exists>r. expandEntry apiData entry = Inr [r]
           \<and> text' r = word entry
           \<and> partOfSpeech r = lit ''unknown''
           \<and> translation r = formatTranslation (rawTrans entry)"
  using assms by (simp add: expandEntry_returns definitionLoop_def record_of_def)

theorem zero_definitions_one_record_witness:
  "definitions \<lparr>rank = lit ''1'', word = lit ''run'', definitions = [],
                 rawTrans = lit ''v. see [\"x\"]''\<rparr> = []
   \<and> (\<exists>r. expandEntry Null \<lparr>rank = lit ''1'', word = lit ''run'', definitions = [],
                               rawTrans = lit ''v. see [\"x\"]''\<rparr> = Inr [r]
           \<and> text' r = lit ''run''
           \<and> partOfSpeech r = lit ''unknown''
           \<and> translation r = lit ''v. see [x'')"
proof -
  let ?e = "\<lparr>rank = lit ''1'', word = lit ''run'', definitions = [],
              rawTrans = lit ''v. see [\"x\"]''\<rparr>"
  have h: "definitions ?e = []" by simp
  have f: "formatTranslation (lit ''v. see [\"x\"]'') = lit ''v. see [x''" by code_simp
  from zero_definitions_one_record [OF h, of Null] f h show ?thesis by simp
qed

text \<open>
  C5: an entry with \<open>N > 0\<close> definitions gives exactly \<open>N\<close> records; all carry the
  headword and the rank of the entry (as a number), and record \<open>i\<close> carries the part
  of speech of definition \<open>i\<close> and its translation, formatted by formatTranslation.
\<close>

theorem definitions_records:
  assumes "definitions entry \<noteq> []"
  shows "\<exists>rs. expandEntry apiData entry = Inr rs
           \<and> length rs = length (definitions entry)
           \<and> (\<forall>i<length rs.
                 text' (rs ! i) = word entry
                 \<and> cocaRank (rs ! i) = Number (rank entry)
                 \<and> partOfSpeech (rs ! i) = pos (definitions entry ! i)
                 \<and> translation (rs ! i) = formatTranslation (trans' (definitions entry ! i)))"
  using assms by (simp add: expandEntry_returns definitionLoop_def record_of_def)


theorem definitions_records_witness:
  "parseMarkdownFile
     (lit ''1 run'' @ 0x0A # lit ''v. [\"'' @ 0x8DD1 # lit ''\"]  n. [\"'' @ 0x8DD1 # 0x6B65 # lit ''\"]'')
     = [\<lparr>rank = lit ''1'', word = lit ''run'',
         definitions = [\<lparr>pos = lit ''v'', trans' = lit ''[\"'' @ 0x8DD1 # lit ''\"]''\<rparr>,
                        \<lparr>pos = lit ''n'', trans' = lit ''[\"'' @ 0x8DD1 # 0x6B65 # lit ''\"]''\<rparr>],
         rawTrans = lit ''v. [\"'' @ 0x8DD1 # lit ''\"]  n. [\"'' @ 0x8DD1 # 0x6B65 # lit ''\"]''\<rparr>]
   \<and> definitions \<lparr>rank = lit ''1'', word = lit ''run'',
                 definitions = [\<lparr>pos = lit ''v'', trans' = lit ''[\"'' @ 0x8DD1 # lit ''\"]''\<rparr>,
                                \<lparr>pos = lit ''n'', trans' = lit ''[\"'' @ 0x8DD1 # 0x6B65 # lit ''\"]''\<rparr>],
                 rawTrans = lit ''v. [\"'' @ 0x8DD1 # lit ''\"]  n. [\"'' @ 0x8DD1 # 0x6B65 # lit ''\"]''\<rparr> \<noteq> []
   \<and> (\<exists>rs. expandEntry Null
               \<lparr>rank = lit ''1'', word = lit ''run'',
                definitions = [\<lparr>pos = lit ''v'', trans' = lit ''[\"'' @ 0x8DD1 # lit ''\"]''\<rparr>,
                               \<lparr>pos = lit ''n'', trans' = lit ''[\"'' @ 0x8DD1 # 0x6B65 # lit ''\"]''\<rparr>],
                rawTrans = lit ''v. [\"'' @ 0x8DD1 # lit ''\"]  n. [\"'' @ 0x8DD1 # 0x6B65 # lit ''\"]''\<rparr>
             = Inr rs
           \<and> length rs = 2
           \<and> map text' rs = [lit ''run'', lit ''run'']
           \<and> map cocaRank rs = [Dec 1 0, Dec 1 0]
           \<and> map partOfSpeech rs = [lit ''v'', lit ''n'']
           \<and> map translation rs = [[0x8DD1], [0x8DD1, 0x6B65]])"
proof -
  let ?e = "\<lparr>rank = lit ''1'', word = lit ''run'',
              definitions = [\<lparr>pos = lit ''v'', trans' = lit ''[\"'' @ 0x8DD1 # lit ''\"]''\<rparr>,
                             \<lparr>pos = lit ''n'', trans' = lit ''[\"'' @ 0x8DD1 # 0x6B65 # lit ''\"]''\<rparr>],
              rawTrans = lit ''v. [\"'' @ 0x8DD1 # lit ''\"]  n. [\"'' @ 0x8DD1 # 0x6B65 # lit ''\"]''\<rparr>"
  have h: "definitions ?e \<noteq> []" by simp
  from definitions_records [OF h, of Null] obtain rs where
    run: "expandEntry Null ?e = Inr rs"
    and len: "length rs = length (definitions ?e)"
    and each: "\<forall>i<length rs.
                 text' (rs ! i) = word ?e
                 \<and> cocaRank (rs ! i) = Number (rank ?e)
                 \<and> partOfSpeech (rs ! i) = pos (definitions ?e ! i)
                 \<and> translation (rs ! i) = formatTranslation (trans' (definitions ?e ! i))"
    by (elim exE conjE) (rule that, assumption+)
  from len have l2: "length rs = 2" by simp
  then obtain a b where rs: "rs = [a, b]"
    by (cases rs; cases "tl rs") auto
  have n: "Number (lit ''1'') = Dec 1 0" by code_simp
  have f1: "formatTranslation (lit ''[\"'' @ 0x8DD1 # lit ''\"]'') = [0x8DD1]" by code_simp
  have f2: "formatTranslation (lit ''[\"'' @ 0x8DD1 # 0x6B65 # lit ''\"]'') = [0x8DD1, 0x6B65]"
    by code_simp
  from each [rule_format, of 0] each [rule_format, of 1] rs
  have "map text' rs = [lit ''run'', lit ''run'']"
    and "map cocaRank rs = [Dec 1 0, Dec 1 0]"
    and "map partOfSpeech rs = [lit ''v'', lit ''n'']"
    and "map translation rs = [[0x8DD1], [0x8DD1, 0x6B65]]"
    by (simp_all add: n f1 f2)
  moreover have "parseMarkdownFile
     (lit ''1 run'' @ 0x0A # lit ''v. [\"'' @ 0x8DD1 # lit ''\"]  n. [\"'' @ 0x8DD1 # 0x6B65 # lit ''\"]'')
     = [?e]"
    by code_simp
  ultimately show ?thesis
    using h run l2 by (intro conjI exI [of _ rs])
qed

text \<open>
  C4: no field read from the response is ever null. The code breaks it: for the response
  \<open>{"ec":{"word":[{"usphone":null}]}}\<close> the record's phoneticUs is null, since getDeep
  returns a null it finds and only inflections and tags are guarded by \<open>|| []\<close>.
\<close>

theorem null_phonetic_in_record:
  "JSON_parse (lit ''{\"ec\":{\"word\":[{\"usphone\":null}]}}'')
     = Some (Obj [(lit ''ec'', Obj [(lit ''word'', Arr [Obj [(lit ''usphone'', Null)]])])])
   \<and> map phoneticUs
         (case expandEntry (Obj [(lit ''ec'', Obj [(lit ''word'', Arr [Obj [(lit ''usphone'', Null)]])])])
                 \<lparr>rank = lit ''1'', word = lit ''run'', definitions = [], rawTrans = []\<rparr> of
            Inr rs \<Rightarrow> rs | Inl err \<Rightarrow> [])
       = [Null]"
  by code_simp

text \<open>
  What does hold of these fields: building the records never throws, no field is
  undefined, inflections and tags are never falsy, and every field has its default when
  the lookup failed or the path is absent.
\<close>

lemma fieldOr_defined: "d \<noteq> Undefined \<Longrightarrow> fieldOr apiData path d \<noteq> Undefined"
  by (simp add: fieldOr_def spec_get_def)

lemma orElse_present: "\<not> falsy b \<Longrightarrow> \<not> falsy (orElse a b)"
  by (simp add: orElse_def)

lemma fieldOr_failed: "falsy apiData \<Longrightarrow> fieldOr apiData path d = d"
  by (simp add: fieldOr_def)

lemma fieldOr_missing:
  "spec_resolve apiData path = Undefined \<Longrightarrow> fieldOr apiData path d = d"
  by (simp add: fieldOr_def spec_get_def)

lemma lookup_fields:
  "\<exists>rs. expandEntry apiData entry = Inr rs
     \<and> (\<forall>r \<in> set rs.
           phoneticUs r \<noteq> Undefined \<and> phoneticUk r \<noteq> Undefined \<and> image' r \<noteq> Undefined
           \<and> cover (video r) \<noteq> Undefined \<and> title (video r) \<noteq> Undefined
           \<and> url (video r) \<noteq> Undefined
           \<and> \<not> falsy (inflections r) \<and> \<not> falsy (tags r)
           \<and> (falsy apiData \<longrightarrow>
                 phoneticUs r = Str [] \<and> phoneticUk r = Str [] \<and> image' r = Str []
                 \<and> video r = \<lparr>cover = Str [], title = Str [], url = Str []\<rparr>
                 \<and> inflections r = Arr [] \<and> tags r = Arr []))"
  by (auto simp: expandEntry_returns record_of_def fieldOr_defined orElse_present fieldOr_failed
        orElse_def)



section \<open>Properties of the run\<close>

lemma frame_refl: "frame st st"
  by (simp add: frame_def)

lemma frame_trans: "frame a b \<Longrightarrow> frame b c \<Longrightarrow> frame a c"
  by (simp add: frame_def)

lemma success_returns: "\<exists>ok. success apiData = Inr ok"
  by (auto simp: success_def bind_def getDeep_value)

lemma finishTask_eq:
  "finishTask e t task st =
     Some (st\<lparr>fileProcessedWords := fileProcessedWords st @ entryRecords e t task,
              globalProcessedCount := Suc (globalProcessedCount st),
              progress := (progress st)\<lparr>current := Suc (globalProcessedCount st)\<rparr>\<rparr>)"
proof -
  obtain ok where "success (fetchWordData e t (fst task) (word (snd task))) = Inr ok"
    using success_returns by blast
  then show ?thesis
    by (simp add: finishTask_def Let_def bind_def expandEntry_returns entryRecords_def)
qed

lemma finishTasks_eq:
  "\<exists>st'. finishTasks e t tasks st = Some st'
     \<and> fileProcessedWords st' = fileProcessedWords st @ concat (map (entryRecords e t) tasks)
     \<and> globalProcessedCount st' = globalProcessedCount st + length tasks
     \<and> (current (progress st) = globalProcessedCount st
          \<longrightarrow> current (progress st') = globalProcessedCount st')
     \<and> now st' = now st \<and> frame st st'"
proof (induction tasks arbitrary: st)
  case Nil
  show ?case by (simp add: frame_refl)
next
  case (Cons task tasks)
  let ?st1 = "st\<lparr>fileProcessedWords := fileProcessedWords st @ entryRecords e t task,
                  globalProcessedCount := Suc (globalProcessedCount st),
                  progress := (progress st)\<lparr>current := Suc (globalProcessedCount st)\<rparr>\<rparr>"
  from Cons.IH [of ?st1] obtain st' where
    "finishTasks e t tasks ?st1 = Some st'"
    "fileProcessedWords st' = fileProcessedWords ?st1 @ concat (map (entryRecords e t) tasks)"
    "globalProcessedCount st' = globalProcessedCount ?st1 + length tasks"
    "current (progress ?st1) = globalProcessedCount ?st1
       \<longrightarrow> current (progress st') = globalProcessedCount st'"
    "now st' = now ?st1" "frame ?st1 st'"
    by blast
  then show ?case
    by (simp add: finishTask_eq frame_def)
qed


lemma complete_mset: "mset (complete cs xs) = mset xs"
proof (induction cs xs rule: complete.induct)
  case (3 c cs x xs)
  let ?ys = "x # xs"
  let ?k = "c mod length ?ys"
  have k: "?k < length ?ys" by simp
  have "mset ?ys = mset (take ?k ?ys @ ?ys ! ?k # drop (Suc ?k) ?ys)"
    using k by (simp only: id_take_nth_drop [symmetric])
  with 3 show ?case by (simp add: Let_def)
qed simp_all

lemma complete_in_order: "complete [] xs = xs"
  by (induction xs) simp_all

text \<open>Every order of the tasks of a window is the completion order of some choices.\<close>

lemma complete_any_order:
  assumes "mset ys = mset xs"
  shows "\<exists>cs. complete cs xs = ys"
  using assms
proof (induction ys arbitrary: xs)
  case Nil
  then show ?case by simp
next
  case (Cons y ys)
  then have "y \<in> set xs" by (metis list.set_intros(1) set_mset_mset)
  then obtain k where k: "k < length xs" "xs ! k = y"
    by (auto simp: in_set_conv_nth)
  let ?rest = "take k xs @ drop (Suc k) xs"
  have "mset xs = mset (take k xs @ xs ! k # drop (Suc k) xs)"
    using k(1) by (simp only: id_take_nth_drop [symmetric])
  with Cons.prems k(2) have "mset ys = mset ?rest" by simp
  from Cons.IH [OF this] obtain cs where cs: "complete cs ?rest = ys" by blast
  from k(1) obtain x xs' where xs: "xs = x # xs'" by (cases xs) auto
  have "complete (k # cs) (x # xs') = y # ys"
    using k cs xs by (simp add: Let_def)
  with xs show ?case by blast
qed

lemma length_entryRecords:
  "length (entryRecords e t task) = max 1 (length (definitions (snd task)))"
  by (cases "definitions (snd task)") (simp_all add: entryRecords_def definitionLoop_def)

lemma sum_list_perm:
  fixes f :: "'a \<Rightarrow> nat"
  assumes "mset xs = mset ys"
  shows "sum_list (map f xs) = sum_list (map f ys)"
proof -
  have "sum_list (map f xs) = sum_mset (image_mset f (mset xs))"
    by (simp add: sum_mset_sum_list [symmetric])
  also have "\<dots> = sum_mset (image_mset f (mset ys))" by (simp add: assms)
  also have "\<dots> = sum_list (map f ys)" by (simp add: sum_mset_sum_list [symmetric])
  finally show ?thesis .
qed

lemma length_windowRecords: "length (windowRecords e t chunk) = recordCount chunk"
proof -
  let ?tasks = "zip [0..<length chunk] chunk"
  have "length (windowRecords e t chunk)
        = sum_list (map (\<lambda>task. max 1 (length (definitions (snd task))))
            (complete (completion e t) ?tasks))"
    by (simp add: windowRecords_def length_concat comp_def length_entryRecords)
  also have "\<dots> = sum_list (map (\<lambda>task. max 1 (length (definitions (snd task)))) ?tasks)"
    by (rule sum_list_perm) (rule complete_mset)
  also have "\<dots> = sum_list (map (\<lambda>w. max 1 (length (definitions w))) chunk)"
  proof -
    have "map (\<lambda>task. max 1 (length (definitions (snd task)))) ?tasks
          = map (\<lambda>w. max 1 (length (definitions w))) (map snd ?tasks)"
      by (simp only: map_map comp_def)
    moreover have "map snd ?tasks = chunk" by simp
    ultimately show ?thesis by (simp only:)
  qed
  finally show ?thesis by (simp only: recordCount_def)
qed

lemma showWords_fields:
  "fileProcessedWords (foldl (\<lambda>s entry. s\<lparr>progress := (progress s)\<lparr>currentWord := word entry\<rparr>\<rparr>) st chunk)
     = fileProcessedWords st
   \<and> globalProcessedCount (foldl (\<lambda>s entry. s\<lparr>progress := (progress s)\<lparr>currentWord := word entry\<rparr>\<rparr>) st chunk)
     = globalProcessedCount st
   \<and> current (progress (foldl (\<lambda>s entry. s\<lparr>progress := (progress s)\<lparr>currentWord := word entry\<rparr>\<rparr>) st chunk))
     = current (progress st)
   \<and> now (foldl (\<lambda>s entry. s\<lparr>progress := (progress s)\<lparr>currentWord := word entry\<rparr>\<rparr>) st chunk) = now st
   \<and> frame st (foldl (\<lambda>s entry. s\<lparr>progress := (progress s)\<lparr>currentWord := word entry\<rparr>\<rparr>) st chunk)"
  by (induction chunk arbitrary: st) (simp_all add: frame_def)

lemma runWindow_aborted: "abortRef e (now st) \<Longrightarrow> runWindow e chunk st = Some st"
  by (simp add: runWindow_def)

lemma runWindow_eq:
  assumes "\<not> abortRef e (now st)"
  shows "\<exists>st'. runWindow e chunk st = Some st'
     \<and> fileProcessedWords st' = fileProcessedWords st @ windowRecords e (now st) chunk
     \<and> globalProcessedCount st' = globalProcessedCount st + length chunk
     \<and> (current (progress st) = globalProcessedCount st
          \<longrightarrow> current (progress st') = globalProcessedCount st')
     \<and> now st' = Suc (now st) \<and> frame st st'"
proof -
  let ?st1 = "foldl (\<lambda>s entry. s\<lparr>progress := (progress s)\<lparr>currentWord := word entry\<rparr>\<rparr>) st chunk"
  let ?tasks = "complete (completion e (now st)) (zip [0..<length chunk] chunk)"
  have len: "length ?tasks = length chunk"
    using complete_mset [of "completion e (now st)" "zip [0..<length chunk] chunk"]
    by (metis length_zip length_upt min.idem minus_nat.diff_0 size_mset)
  from finishTasks_eq [of e "now st" ?tasks ?st1] obtain st2 where st2:
    "finishTasks e (now st) ?tasks ?st1 = Some st2"
    "fileProcessedWords st2 = fileProcessedWords ?st1 @ concat (map (entryRecords e (now st)) ?tasks)"
    "globalProcessedCount st2 = globalProcessedCount ?st1 + length ?tasks"
    "current (progress ?st1) = globalProcessedCount ?st1
       \<longrightarrow> current (progress st2) = globalProcessedCount st2"
    "now st2 = now ?st1" "frame ?st1 st2"
    by blast
  from showWords_fields [of st chunk] have f1:
    "fileProcessedWords ?st1 = fileProcessedWords st"
    "globalProcessedCount ?st1 = globalProcessedCount st"
    "current (progress ?st1) = current (progress st)"
    "now ?st1 = now st" "frame st ?st1"
    by blast+
  have "runWindow e chunk st = Some (st2\<lparr>now := Suc (now st)\<rparr>)"
    using assms st2(1) by (simp add: runWindow_def Let_def)
  moreover have "frame st (st2\<lparr>now := Suc (now st)\<rparr>)"
    using frame_trans [OF f1(5) st2(6)] by (simp add: frame_def)
  ultimately show ?thesis
    using st2 f1 len by (simp add: windowRecords_def)
qed


lemma windows_Nil: "windows [] = []"
  by (simp add: windows.simps)

lemma windows_Cons: "xs \<noteq> [] \<Longrightarrow> windows xs = take CONCURRENCY xs # windows (drop CONCURRENCY xs)"
  by (subst windows.simps) simp

lemma chunk_eq: "slice ws (int i) (int (i + CONCURRENCY)) = take CONCURRENCY (drop i ws)"
  using slice_nat [of ws i CONCURRENCY] by simp

lemma recordCount_append: "recordCount (xs @ ys) = recordCount xs + recordCount ys"
  by (simp add: recordCount_def)

lemma recordCount_drop:
  "recordCount (drop i ws)
   = recordCount (take CONCURRENCY (drop i ws)) + recordCount (drop (i + CONCURRENCY) ws)"
proof -
  have "drop i ws = take CONCURRENCY (drop i ws) @ drop CONCURRENCY (drop i ws)"
    by (simp only: append_take_drop_id)
  then have "recordCount (drop i ws)
      = recordCount (take CONCURRENCY (drop i ws)) + recordCount (drop CONCURRENCY (drop i ws))"
    by (metis recordCount_append)
  then show ?thesis by (simp add: add.commute)
qed


lemma windowLoop_aborted: "abortRef e (now st) \<Longrightarrow> windowLoop e ws i st = Some st"
  by (subst windowLoop.simps) simp

lemma windowLoop_general:
  assumes "windowLoop e ws i st = Some st'"
  shows "length (fileProcessedWords st') \<le> length (fileProcessedWords st) + recordCount (drop i ws)
     \<and> (\<not> abortRef e (now st') \<longrightarrow>
           length (fileProcessedWords st') = length (fileProcessedWords st) + recordCount (drop i ws)
           \<and> globalProcessedCount st' = globalProcessedCount st + (length ws - i))
     \<and> (current (progress st) = globalProcessedCount st
          \<longrightarrow> current (progress st') = globalProcessedCount st')
     \<and> frame st st'"
  using assms
proof (induction e ws i st arbitrary: st' rule: windowLoop.induct)
  case (1 e ws i st)
  show ?case
  proof (cases "i < length ws")
    case False
    with "1.prems" have "st' = st" by (subst (asm) windowLoop.simps) simp
    with False show ?thesis by (simp add: frame_refl recordCount_def)
  next
    case inside: True
    show ?thesis
    proof (cases "abortRef e (now st)")
      case True
      with "1.prems" have "st' = st" by (simp add: windowLoop_aborted)
      with True show ?thesis by (simp add: frame_refl)
    next
      case running: False
      from "1.prems" inside running obtain t where t: "pauseLoop e (now st) = Some t"
        by (subst (asm) windowLoop.simps) (auto split: option.splits)
      let ?chunk = "slice ws (int i) (int (i + CONCURRENCY))"
      let ?st0 = "st\<lparr>now := t\<rparr>"
      from "1.prems" inside running t obtain st1 where
        st1: "runWindow e ?chunk ?st0 = Some st1"
        and rest: "windowLoop e ws (i + CONCURRENCY) st1 = Some st'"
        by (subst (asm) windowLoop.simps) (auto split: option.splits)
      note IH = "1.IH" [OF inside running t st1 rest]
      have f0: "frame st ?st0" by (simp add: frame_def)
      show ?thesis
      proof (cases "abortRef e t")
        case True
        then have "st1 = ?st0" using st1 by (simp add: runWindow_aborted)
        moreover from this True rest have "st' = ?st0" by (simp add: windowLoop_aborted)
        ultimately show ?thesis using True f0 by simp
      next
        case False
        from runWindow_eq [of e ?st0 ?chunk] False st1 have w:
          "fileProcessedWords st1 = fileProcessedWords st @ windowRecords e t ?chunk"
          "globalProcessedCount st1 = globalProcessedCount st + length ?chunk"
          "current (progress st) = globalProcessedCount st
             \<longrightarrow> current (progress st1) = globalProcessedCount st1"
          "frame ?st0 st1"
          by auto
        have fr: "frame st st'"
          using frame_trans [OF frame_trans [OF f0 w(4)]] IH by blast
        have len: "length ?chunk + (length ws - (i + CONCURRENCY)) = length ws - i"
          using inside by (simp add: slice_nat)
        have cnt: "recordCount (drop i ws)
                   = recordCount ?chunk + recordCount (drop (i + CONCURRENCY) ws)"
          using recordCount_drop [of i ws] by (simp add: slice_nat)
        from IH w fr len cnt show ?thesis
          by (simp add: length_windowRecords)
      qed
    qed
  qed
qed


lemma windowLoop_windowwise:
  assumes "windowLoop e ws i st = Some st'" and "\<not> abortRef e (now st')"
  shows "\<exists>ts. length ts = length (windows (drop i ws))
           \<and> fileProcessedWords st'
               = fileProcessedWords st @ concat (map2 (windowRecords e) ts (windows (drop i ws)))"
  using assms
proof (induction e ws i st arbitrary: st' rule: windowLoop.induct)
  case (1 e ws i st)
  show ?case
  proof (cases "i < length ws")
    case False
    with "1.prems" have "st' = st" by (subst (asm) windowLoop.simps) simp
    with False show ?thesis by (simp add: windows_Nil)
  next
    case inside: True
    show ?thesis
    proof (cases "abortRef e (now st)")
      case True
      with "1.prems" have "st' = st" by (simp add: windowLoop_aborted)
      with True "1.prems" show ?thesis by simp
    next
      case running: False
      from "1.prems" inside running obtain t where t: "pauseLoop e (now st) = Some t"
        by (subst (asm) windowLoop.simps) (auto split: option.splits)
      let ?chunk = "slice ws (int i) (int (i + CONCURRENCY))"
      let ?st0 = "st\<lparr>now := t\<rparr>"
      from "1.prems" inside running t obtain st1 where
        st1: "runWindow e ?chunk ?st0 = Some st1"
        and rest: "windowLoop e ws (i + CONCURRENCY) st1 = Some st'"
        by (subst (asm) windowLoop.simps) (auto split: option.splits)
      have live: "\<not> abortRef e t"
      proof
        assume a: "abortRef e t"
        then have "st1 = ?st0" using st1 by (simp add: runWindow_aborted)
        with a rest have "st' = ?st0" by (simp add: windowLoop_aborted)
        with a "1.prems" show False by simp
      qed
      from "1.IH" [OF inside running t st1 rest "1.prems"(2)] obtain ts where ts:
        "length ts = length (windows (drop (i + CONCURRENCY) ws))"
        "fileProcessedWords st'
           = fileProcessedWords st1
             @ concat (map2 (windowRecords e) ts (windows (drop (i + CONCURRENCY) ws)))"
        by blast
      from runWindow_eq [of e ?st0 ?chunk] live st1 have w:
        "fileProcessedWords st1 = fileProcessedWords st @ windowRecords e t ?chunk"
        by auto
      have chunk: "?chunk = take CONCURRENCY (drop i ws)" by (rule chunk_eq)
      have "drop i ws \<noteq> []" using inside by simp
      then have win: "windows (drop i ws)
                      = take CONCURRENCY (drop i ws) # windows (drop (i + CONCURRENCY) ws)"
        by (simp add: windows_Cons add.commute)
      have "length (t # ts) = length (windows (drop i ws))"
        using ts(1) win by simp
      moreover have "fileProcessedWords st'
          = fileProcessedWords st @ concat (map2 (windowRecords e) (t # ts) (windows (drop i ws)))"
        using ts(2) w chunk win by simp
      ultimately show ?thesis by blast
    qed
  qed
qed

lemma fileLoop_aborted: "abortRef e (now st) \<Longrightarrow> fileLoop e files st = Some st"
  by (cases files) simp_all

lemma partialResults_single:
  "fileName r = fst f \<Longrightarrow> length (data r) \<le> recordCount (snd f) \<Longrightarrow> partialResults (f # fs) [r]"
  by simp

lemma fileLoop_general:
  assumes "fileLoop e files st = Some st'"
  shows "\<exists>rs. allResults st' = allResults st @ rs
           \<and> partialResults files rs
           \<and> started st' = started st + length rs
           \<and> results st' = results st
           \<and> processing st' = processing st
           \<and> total (progress st') = total (progress st)
           \<and> (current (progress st) = globalProcessedCount st
                \<longrightarrow> current (progress st') = globalProcessedCount st')"
  using assms
proof (induction files arbitrary: st st')
  case Nil
  then show ?case by simp
next
  case (Cons f files)
  show ?case
  proof (cases "abortRef e (now st)")
    case True
    with Cons.prems have "st' = st" by simp
    then show ?thesis by simp
  next
    case False
    let ?st0 = "st\<lparr>fileProcessedWords := [], started := Suc (started st)\<rparr>"
    from Cons.prems False obtain st1 where st1: "windowLoop e (snd f) 0 ?st0 = Some st1"
      by (auto split: option.splits)
    let ?r = "\<lparr>fileName = fst f, data = fileProcessedWords st1\<rparr>"
    let ?st2 = "st1\<lparr>allResults := allResults st1 @ [?r]\<rparr>"
    from windowLoop_general [OF st1] have g:
      "length (fileProcessedWords st1) \<le> recordCount (snd f)"
      "\<not> abortRef e (now st1) \<longrightarrow> length (fileProcessedWords st1) = recordCount (snd f)"
      "current (progress st) = globalProcessedCount st
         \<longrightarrow> current (progress st1) = globalProcessedCount st1"
      "frame ?st0 st1"
      by simp_all
    show ?thesis
    proof (cases "abortRef e (now st1)")
      case True
      with Cons.prems False st1 have "st' = ?st2" by (simp add: Let_def)
      with g show ?thesis by (simp add: frame_def)
    next
      case live: False
      with Cons.prems False st1 have "fileLoop e files ?st2 = Some st'" by (simp add: Let_def)
      from Cons.IH [OF this] obtain rs where rs:
        "allResults st' = allResults ?st2 @ rs" "partialResults files rs"
        "started st' = started ?st2 + length rs" "results st' = results ?st2"
        "processing st' = processing ?st2" "total (progress st') = total (progress ?st2)"
        "current (progress ?st2) = globalProcessedCount ?st2
           \<longrightarrow> current (progress st') = globalProcessedCount st'"
        by blast
      have "partialResults (f # files) (?r # rs)"
        using g live rs(2) by simp
      moreover have "allResults st' = allResults st @ ?r # rs"
        using rs(1) g(4) by (simp add: frame_def)
      ultimately show ?thesis
        using rs g by (intro exI [of _ "?r # rs"]) (simp add: frame_def)
    qed
  qed
qed


lemma fileLoop_complete:
  assumes "fileLoop e files st = Some st'" and "\<not> abortRef e (now st')"
  shows "\<exists>rs. allResults st' = allResults st @ rs
           \<and> list_all2 (\<lambda>f r. fileName r = fst f \<and> windowwise e (snd f) (data r)
                                \<and> length (data r) = recordCount (snd f)) files rs
           \<and> globalProcessedCount st'
               = globalProcessedCount st + sum_list (map (\<lambda>f. length (snd f)) files)"
  using assms
proof (induction files arbitrary: st st')
  case Nil
  then show ?case by simp
next
  case (Cons f files)
  have running: "\<not> abortRef e (now st)"
  proof
    assume "abortRef e (now st)"
    with Cons.prems show False by simp
  qed
  let ?st0 = "st\<lparr>fileProcessedWords := [], started := Suc (started st)\<rparr>"
  from Cons.prems(1) running obtain st1 where st1: "windowLoop e (snd f) 0 ?st0 = Some st1"
    by (auto split: option.splits)
  let ?r = "\<lparr>fileName = fst f, data = fileProcessedWords st1\<rparr>"
  let ?st2 = "st1\<lparr>allResults := allResults st1 @ [?r]\<rparr>"
  have live: "\<not> abortRef e (now st1)"
  proof
    assume a: "abortRef e (now st1)"
    with Cons.prems(1) running st1 have "st' = ?st2" by (simp add: Let_def)
    with a Cons.prems(2) show False by simp
  qed
  with Cons.prems(1) running st1 have rest: "fileLoop e files ?st2 = Some st'"
    by (simp add: Let_def)
  from windowLoop_general [OF st1] live have g:
    "length (fileProcessedWords st1) = recordCount (snd f)"
    "globalProcessedCount st1 = globalProcessedCount st + length (snd f)"
    "frame ?st0 st1"
    by simp_all
  from windowLoop_windowwise [OF st1 live] have ww: "windowwise e (snd f) (fileProcessedWords st1)"
    by (simp add: windowwise_def)
  from Cons.IH [OF rest Cons.prems(2)] obtain rs where rs:
    "allResults st' = allResults ?st2 @ rs"
    "list_all2 (\<lambda>f r. fileName r = fst f \<and> windowwise e (snd f) (data r)
                        \<and> length (data r) = recordCount (snd f)) files rs"
    "globalProcessedCount st' = globalProcessedCount ?st2 + sum_list (map (\<lambda>f. length (snd f)) files)"
    by blast
  have "allResults st' = allResults st @ ?r # rs"
    using rs(1) g(3) by (simp add: frame_def)
  moreover have "list_all2 (\<lambda>f r. fileName r = fst f \<and> windowwise e (snd f) (data r)
                        \<and> length (data r) = recordCount (snd f)) (f # files) (?r # rs)"
    using rs(2) g(1) ww by simp
  moreover have "globalProcessedCount st'
      = globalProcessedCount st + sum_list (map (\<lambda>f. length (snd f)) (f # files))"
    using rs(3) g(2) by simp
  ultimately show ?case by blast
qed

lemma processFiles_run:
  assumes "processFiles e files st0 = Some st" and "files \<noteq> []"
  shows "\<exists>st2. fileLoop e (parseFiles files)
                 (st0\<lparr>processing := True, results := [], allResults := [],
                      progress := \<lparr>current = 0,
                                    total = sum_list (map (\<lambda>f. length (snd f)) (parseFiles files)),
                                    currentWord = [0x51C6, 0x5907, 0x5F00, 0x59CB] @ lit ''...''\<rparr>,
                      globalProcessedCount := 0, now := 0, started := 0\<rparr>) = Some st2
           \<and> st = (if \<not> abortRef e (now st2) then st2\<lparr>results := allResults st2\<rparr> else st2)
                    \<lparr>processing := False\<rparr>"
  using assms by (auto simp: processFiles_def Let_def split: option.splits)

lemma fst_parseFiles: "map fst (parseFiles files) = map fst files"
  by (simp add: parseFiles_def comp_def)

text \<open>
  C6: after a run that returns with the abort flag clear, processedCount
  (\<open>progress.current\<close>) equals totalCount (\<open>progress.total\<close>), the number of entries
  of all files, and the result of each file holds as many records as the sum over its
  entries of \<open>max 1 (number of definitions)\<close>.
\<close>

theorem completed_run_counts:
  assumes "processFiles e files st0 = Some st" and "files \<noteq> []" and "\<not> abortRef e (now st)"
  shows "current (progress st) = sum_list (map (\<lambda>f. length (snd f)) (parseFiles files))
         \<and> total (progress st) = sum_list (map (\<lambda>f. length (snd f)) (parseFiles files))
         \<and> map fileName (results st) = map fst files
         \<and> map (\<lambda>r. length (data r)) (results st)
             = map (\<lambda>f. sum_list (map (\<lambda>w. max 1 (length (definitions w))) (snd f)))
                 (parseFiles files)"
proof -
  let ?n = "sum_list (map (\<lambda>f. length (snd f)) (parseFiles files))"
  let ?st1 = "st0\<lparr>processing := True, results := [], allResults := [],
                  progress := \<lparr>current = 0, total = ?n,
                                currentWord = [0x51C6, 0x5907, 0x5F00, 0x59CB] @ lit ''...''\<rparr>,
                  globalProcessedCount := 0, now := 0, started := 0\<rparr>"
  from processFiles_run [OF assms(1,2)] obtain st2 where
    loop: "fileLoop e (parseFiles files) ?st1 = Some st2"
    and st: "st = (if \<not> abortRef e (now st2) then st2\<lparr>results := allResults st2\<rparr> else st2)
                    \<lparr>processing := False\<rparr>"
    by blast
  from st assms(3) have live: "\<not> abortRef e (now st2)" by (auto split: if_splits)
  with st have st': "st = st2\<lparr>results := allResults st2, processing := False\<rparr>" by simp
  from fileLoop_complete [OF loop live] obtain rs where rs:
    "allResults st2 = rs"
    "list_all2 (\<lambda>f r. fileName r = fst f \<and> windowwise e (snd f) (data r)
                        \<and> length (data r) = recordCount (snd f)) (parseFiles files) rs"
    "globalProcessedCount st2 = ?n"
    by auto
  from fileLoop_general [OF loop] have
    "total (progress st2) = ?n"
    "current (progress st2) = globalProcessedCount st2"
    by auto
  moreover from rs(2) have "map fileName rs = map fst (parseFiles files)"
    by (induction rule: list_all2_induct) simp_all
  moreover from rs(2) have "map (\<lambda>r. length (data r)) rs
      = map (\<lambda>f. recordCount (snd f)) (parseFiles files)"
    by (induction rule: list_all2_induct) simp_all
  ultimately show ?thesis
    using rs(1,3) st' by (simp add: recordCount_def fst_parseFiles)
qed

text \<open>
  C2, amended: after a run that returns with the abort flag clear, the records of each
  file are the concatenation, window by window in source order, of the records of the
  window's entries in the order in which their lookups complete (the source order when
  they complete in the order they were sent); within an entry the records are in
  definition order.
\<close>

theorem record_order:
  assumes "processFiles e files st0 = Some st" and "files \<noteq> []" and "\<not> abortRef e (now st)"
  shows "list_all2
           (\<lambda>f r. fileName r = fst f
              \<and> (\<exists>ts. length ts = length (windows (snd f))
                    \<and> data r = concat (map2 (windowRecords e) ts (windows (snd f)))))
           (parseFiles files) (results st)
         \<and> (\<forall>t chunk. completion e t = [] \<longrightarrow>
               windowRecords e t chunk
                 = concat (map (entryRecords e t) (zip [0..<length chunk] chunk)))
         \<and> (\<forall>t task. map partOfSpeech (entryRecords e t task) = map pos (definitionLoop (snd task)))"
proof -
  let ?n = "sum_list (map (\<lambda>f. length (snd f)) (parseFiles files))"
  let ?st1 = "st0\<lparr>processing := True, results := [], allResults := [],
                  progress := \<lparr>current = 0, total = ?n,
                                currentWord = [0x51C6, 0x5907, 0x5F00, 0x59CB] @ lit ''...''\<rparr>,
                  globalProcessedCount := 0, now := 0, started := 0\<rparr>"
  from processFiles_run [OF assms(1,2)] obtain st2 where
    loop: "fileLoop e (parseFiles files) ?st1 = Some st2"
    and st: "st = (if \<not> abortRef e (now st2) then st2\<lparr>results := allResults st2\<rparr> else st2)
                    \<lparr>processing := False\<rparr>"
    by blast
  from st assms(3) have live: "\<not> abortRef e (now st2)" by (auto split: if_splits)
  with st have st': "results st = allResults st2" by simp
  from fileLoop_complete [OF loop live] have
    "list_all2 (\<lambda>f r. fileName r = fst f \<and> windowwise e (snd f) (data r)
                        \<and> length (data r) = recordCount (snd f)) (parseFiles files) (results st)"
    by (auto simp: st')
  then have "list_all2
           (\<lambda>f r. fileName r = fst f
              \<and> (\<exists>ts. length ts = length (windows (snd f))
                    \<and> data r = concat (map2 (windowRecords e) ts (windows (snd f)))))
           (parseFiles files) (results st)"
    by (rule list_all2_mono) (simp add: windowwise_def)
  moreover have "windowRecords e t chunk
                 = concat (map (entryRecords e t) (zip [0..<length chunk] chunk))"
    if "completion e t = []" for t chunk
    using that by (simp add: windowRecords_def complete_in_order)
  moreover have "map partOfSpeech (entryRecords e t task) = map pos (definitionLoop (snd task))"
    for t task
    by (simp add: entryRecords_def record_of_def comp_def)
  ultimately show ?thesis by blast
qed

text \<open>
  The run returns whenever every pause ends (by resuming or by aborting); the pause loop
  returns in no other case.
\<close>

lemma pauseLoop_returns:
  assumes "\<not> pausedRef e (t + n) \<or> abortRef e (t + n)"
  shows "\<exists>t'. pauseLoop e t = Some t'"
  using assms
proof (induction n arbitrary: t)
  case 0
  then show ?case by (subst pauseLoop.simps) auto
next
  case (Suc n)
  show ?case
  proof (cases "pausedRef e t \<and> \<not> abortRef e t")
    case True
    from Suc.prems have "\<not> pausedRef e (Suc t + n) \<or> abortRef e (Suc t + n)" by simp
    from Suc.IH [OF this] obtain t' where "pauseLoop e (Suc t) = Some t'" by blast
    with True show ?thesis by (subst pauseLoop.simps) simp
  next
    case False
    then show ?thesis by (subst pauseLoop.simps) auto
  qed
qed

lemma pauseLoop_diverges:
  assumes "pauseLoop e t = Some t'"
  shows "\<exists>n. \<not> pausedRef e (t + n) \<or> abortRef e (t + n)"
proof (rule pauseLoop.raw_induct
    [where P = "\<lambda>e t t'. \<exists>n. \<not> pausedRef e (t + n) \<or> abortRef e (t + n)", OF _ assms])
  fix f :: "Env \<Rightarrow> nat \<Rightarrow> nat option" and e t t'
  assume IH: "\<And>e t t'. f e t = Some t' \<Longrightarrow> \<exists>n. \<not> pausedRef e (t + n) \<or> abortRef e (t + n)"
  assume eq: "(if pausedRef e t then (if abortRef e t then Some t else f e (Suc t)) else Some t)
              = Some t'"
  show "\<exists>n. \<not> pausedRef e (t + n) \<or> abortRef e (t + n)"
  proof (cases "pausedRef e t \<and> \<not> abortRef e t")
    case True
    with eq have "f e (Suc t) = Some t'" by simp
    from IH [OF this] obtain n where "\<not> pausedRef e (Suc t + n) \<or> abortRef e (Suc t + n)"
      by blast
    then have "\<not> pausedRef e (t + Suc n) \<or> abortRef e (t + Suc n)" by simp
    then show ?thesis by blast
  next
    case False
    then have "\<not> pausedRef e (t + 0) \<or> abortRef e (t + 0)" by auto
    then show ?thesis by blast
  qed
qed

lemma runWindow_returns: "\<exists>st'. runWindow e chunk st = Some st'"
  using runWindow_eq [of e st chunk] runWindow_aborted [of e st chunk] by blast

lemma windowLoop_returns:
  assumes "\<And>t. \<exists>n. \<not> pausedRef e (t + n) \<or> abortRef e (t + n)"
  shows "\<exists>st'. windowLoop e ws i st = Some st'"
  using assms
proof (induction e ws i st rule: windowLoop.induct)
  case (1 e ws i st)
  show ?case
  proof (cases "i < length ws \<and> \<not> abortRef e (now st)")
    case False
    then show ?thesis by (subst windowLoop.simps) auto
  next
    case True
    from "1.prems" [of "now st"] obtain t where t: "pauseLoop e (now st) = Some t"
      using pauseLoop_returns by blast
    obtain st1 where st1:
      "runWindow e (slice ws (int i) (int (i + CONCURRENCY))) (st\<lparr>now := t\<rparr>) = Some st1"
      using runWindow_returns by blast
    from True t st1 "1.IH" [OF _ _ t st1 "1.prems"]
    obtain st' where "windowLoop e ws (i + CONCURRENCY) st1 = Some st'" by blast
    with True t st1 show ?thesis by (subst windowLoop.simps) simp
  qed
qed

lemma fileLoop_returns:
  assumes "\<And>t. \<exists>n. \<not> pausedRef e (t + n) \<or> abortRef e (t + n)"
  shows "\<exists>st'. fileLoop e files st = Some st'"
proof (induction files arbitrary: st)
  case Nil
  show ?case by simp
next
  case (Cons f files)
  obtain st1 where st1:
    "windowLoop e (snd f) 0 (st\<lparr>fileProcessedWords := [], started := Suc (started st)\<rparr>) = Some st1"
    using windowLoop_returns [OF assms] by blast
  with Cons.IH show ?case by (simp add: Let_def)
qed

lemma processFiles_returns:
  assumes "\<And>t. \<exists>n. \<not> pausedRef e (t + n) \<or> abortRef e (t + n)"
  shows "\<exists>st. processFiles e files st0 = Some st"
proof (cases "files = []")
  case True
  then show ?thesis by (simp add: processFiles_def)
next
  case False
  obtain st2 where
    "fileLoop e (parseFiles files)
       (st0\<lparr>processing := True, results := [], allResults := [],
            progress := \<lparr>current = 0,
                          total = sum_list (map (\<lambda>f. length (snd f)) (parseFiles files)),
                          currentWord = [0x51C6, 0x5907, 0x5F00, 0x59CB] @ lit ''...''\<rparr>,
            globalProcessedCount := 0, now := 0, started := 0\<rparr>) = Some st2"
    using fileLoop_returns [OF assms] by blast
  with False show ?thesis by (simp add: processFiles_def Let_def)
qed







lemma abort_never: "abortRef (scenario None cs) t = False"
  by (simp add: scenario_def)

text \<open>
  C2, as stated: the records of a file are in the order of its entries, whatever the
  order in which the lookups of a window complete. It fails when the lookup of the second
  entry of a window completes first: its record is pushed first.
\<close>

theorem record_order_counterexample:
  "map (\<lambda>f. map word (snd f)) (parseFiles [(lit ''f.md'', lit ''1 a'' @ 0x0A # lit ''x'' @ 0x0A # 0x0A # lit ''2 b'' @ 0x0A # lit ''y'')]) = [[lit ''a'', lit ''b'']]
   \<and> map_option (\<lambda>st. map (\<lambda>r. map text' (data r)) (results st))
       (processFiles (scenario None [1]) [(lit ''f.md'', lit ''1 a'' @ 0x0A # lit ''x'' @ 0x0A # 0x0A # lit ''2 b'' @ 0x0A # lit ''y'')] initialState)
     = Some [[lit ''b'', lit ''a'']]"
  by code_simp


theorem completed_run_counts_witness:
  "[(lit ''a.md'',
      lit ''1 a'' @ 0x0A # lit ''v. [\"x\"] n. [\"y\"]'' @ 0x0A # 0x0A # lit ''2 b'' @ 0x0A # lit ''note''),
     (lit ''b.md'', lit ''3 c'' @ 0x0A # lit ''note'')] \<noteq> []
   \<and> (\<exists>st. processFiles (scenario None [1]) [(lit ''a.md'',
      lit ''1 a'' @ 0x0A # lit ''v. [\"x\"] n. [\"y\"]'' @ 0x0A # 0x0A # lit ''2 b'' @ 0x0A # lit ''note''),
     (lit ''b.md'', lit ''3 c'' @ 0x0A # lit ''note'')] initialState = Some st
          \<and> \<not> abortRef (scenario None [1]) (now st)
          \<and> current (progress st) = 3 \<and> total (progress st) = 3
          \<and> map fileName (results st) = [lit ''a.md'', lit ''b.md'']
          \<and> map (\<lambda>r. length (data r)) (results st) = [3, 1])"
proof -
  let ?files = "[(lit ''a.md'',
      lit ''1 a'' @ 0x0A # lit ''v. [\"x\"] n. [\"y\"]'' @ 0x0A # 0x0A # lit ''2 b'' @ 0x0A # lit ''note''),
     (lit ''b.md'', lit ''3 c'' @ 0x0A # lit ''note'')]"
  have h: "?files \<noteq> []" by simp
  have "processFiles (scenario None [1]) ?files initialState \<noteq> None" by code_simp
  then obtain st where run: "processFiles (scenario None [1]) ?files initialState = Some st"
    by blast
  have live: "\<not> abortRef (scenario None [1]) (now st)" by (simp add: abort_never)
  have n: "sum_list (map (\<lambda>f. length (snd f)) (parseFiles ?files)) = 3" by code_simp
  have c: "map (\<lambda>f. sum_list (map (\<lambda>w. max 1 (length (definitions w))) (snd f)))
             (parseFiles ?files) = [3, 1]"
    by code_simp
  from completed_run_counts [OF run h live]
  have "current (progress st) = 3" and "total (progress st) = 3"
    and "map fileName (results st) = [lit ''a.md'', lit ''b.md'']"
    and "map (\<lambda>r. length (data r)) (results st) = [3, 1]"
    by (simp_all only: n c) simp_all
  with h run live show ?thesis by (intro conjI exI [of _ st])
qed

theorem record_order_witness:
  "[(lit ''f.md'', lit ''1 a'' @ 0x0A # lit ''x'' @ 0x0A # 0x0A # lit ''2 b'' @ 0x0A # lit ''y'')] \<noteq> []
   \<and> (\<exists>st. processFiles (scenario None [1]) [(lit ''f.md'', lit ''1 a'' @ 0x0A # lit ''x'' @ 0x0A # 0x0A # lit ''2 b'' @ 0x0A # lit ''y'')] initialState = Some st
          \<and> \<not> abortRef (scenario None [1]) (now st)
          \<and> list_all2
               (\<lambda>f r. fileName r = fst f
                  \<and> (\<exists>ts. length ts = length (windows (snd f))
                        \<and> data r = concat (map2 (windowRecords (scenario None [1])) ts (windows (snd f)))))
               (parseFiles [(lit ''f.md'', lit ''1 a'' @ 0x0A # lit ''x'' @ 0x0A # 0x0A # lit ''2 b'' @ 0x0A # lit ''y'')])
               (results st)
          \<and> map (\<lambda>r. map text' (data r)) (results st) = [[lit ''b'', lit ''a'']])"
proof -
  let ?files = "[(lit ''f.md'', lit ''1 a'' @ 0x0A # lit ''x'' @ 0x0A # 0x0A # lit ''2 b'' @ 0x0A # lit ''y'')]"
  have h: "?files \<noteq> []" by simp
  have ev: "map_option (\<lambda>st. map (\<lambda>r. map text' (data r)) (results st))
              (processFiles (scenario None [1]) ?files initialState)
            = Some [[lit ''b'', lit ''a'']]"
    by code_simp
  then obtain st where run: "processFiles (scenario None [1]) ?files initialState = Some st"
    by blast
  have live: "\<not> abortRef (scenario None [1]) (now st)" by (simp add: abort_never)
  from ev run have order: "map (\<lambda>r. map text' (data r)) (results st) = [[lit ''b'', lit ''a'']]"
    by simp
  from record_order [OF run h live]
  have "list_all2
               (\<lambda>f r. fileName r = fst f
                  \<and> (\<exists>ts. length ts = length (windows (snd f))
                        \<and> data r = concat (map2 (windowRecords (scenario None [1])) ts (windows (snd f)))))
               (parseFiles ?files) (results st)"
    by (rule conjunct1)
  with h run live order show ?thesis by (intro conjI exI [of _ st])
qed


end
